theory Spec2Isabelle
  imports Main "HOL-Library.Sublist"
begin

section \<open>Data model of the batch job engine\<close>

text \<open>
  The routes of \<^verbatim>\<open>backend/routes/batch_operations.py\<close> work on three tables of the
  relational store: batch jobs, collections and company-collection associations.
  A UUID is an opaque key; natural numbers stand for it.  The timestamps
  \<^verbatim>\<open>created_at\<close> and \<^verbatim>\<open>updated_at\<close> of a job are wall-clock values and are left
  out of the record.
\<close>

type_synonym uuid = nat

datatype BatchJobStatus = PENDING | IN_PROGRESS | COMPLETED | FAILED | CANCELLED

datatype BatchJobType = ADD | DELETE

text \<open>
  The column \<^verbatim>\<open>company_ids_json\<close> holds \<^verbatim>\<open>json.dumps(request.company_ids)\<close> and is
  only ever read back through \<^verbatim>\<open>json.loads\<close>; on a list of integers the two are
  inverse, so the field is the list itself.
\<close>

record BatchJob =
  job_type :: BatchJobType
  source_collection_id :: uuid
  target_collection_id :: "uuid option"
  total_count :: int
  processed_count :: int
  status :: BatchJobStatus
  company_ids_json :: "int list"
  error_message :: "string option"

text \<open>
  An association row is built at line 103 with
  \<^verbatim>\<open>collection_id=job.target_collection_id\<close>, a nullable column of the job, so the
  row's collection id is kept optional as well.
\<close>

record CompanyCollectionAssociation =
  company_id :: int
  collection_id :: "uuid option"

text \<open>
  The store: job rows by primary key, the ids of the existing collections, and the
  association rows in insertion order (a list, since nothing in this module keeps a
  pair from being stored twice).
\<close>

record database =
  jobs :: "uuid \<rightharpoonup> BatchJob"
  collections :: "uuid set"
  associations :: "CompanyCollectionAssociation list"

datatype HTTPException = HTTPException (status_code: nat) (detail: string)

record BatchAddRequest =
  add_source_collection_id :: uuid
  add_target_collection_id :: uuid
  add_company_ids :: "int list"

record BatchDeleteRequest =
  del_collection_id :: uuid
  del_company_ids :: "int list"

record BatchJobResponse =
  resp_job_id :: uuid
  resp_status :: BatchJobStatus
  resp_job_type :: BatchJobType
  resp_total_count :: int
  resp_processed_count :: int
  resp_error_message :: "string option"

section \<open>Submitting a job\<close>

text \<open>
  Modelled from the spec: the column defaults of \<^verbatim>\<open>database.BatchJob\<close>, declared in
  \<^verbatim>\<open>backend/db/database.py\<close>, which is not among the sources.  The constructor calls
  at lines 169 and 262 leave \<^verbatim>\<open>status\<close>, \<^verbatim>\<open>processed_count\<close> and \<^verbatim>\<open>error_message\<close>
  to these defaults; the spec gives them as PENDING, 0 and absent.
\<close>

definition new_BatchJob ::
    "BatchJobType \<Rightarrow> uuid \<Rightarrow> uuid option \<Rightarrow> int \<Rightarrow> int list \<Rightarrow> BatchJob" where
  "new_BatchJob jt src tgt n ids =
     \<lparr> job_type = jt, source_collection_id = src, target_collection_id = tgt,
       total_count = n, processed_count = 0, status = PENDING,
       company_ids_json = ids, error_message = None \<rparr>"

definition response_of :: "uuid \<Rightarrow> BatchJob \<Rightarrow> BatchJobResponse" where
  "response_of job_id job =
     \<lparr> resp_job_id = job_id, resp_status = status job, resp_job_type = job_type job,
       resp_total_count = total_count job, resp_processed_count = processed_count job,
       resp_error_message = error_message job \<rparr>"

text \<open>
  \<^verbatim>\<open>create_batch_add_job\<close> (lines 148-197).  The primary key the store generates
  for the new row is the parameter \<open>new_id\<close>; \<open>background_tasks\<close> is the queue of
  job ids handed to \<^verbatim>\<open>process_batch_job\<close>.  The result carries the store and the
  queue as they are after the call, also when the call raises.
\<close>

definition create_batch_add_job ::
    "BatchAddRequest \<Rightarrow> uuid list \<Rightarrow> uuid \<Rightarrow> database
      \<Rightarrow> (HTTPException + BatchJobResponse) \<times> uuid list \<times> database" where
  "create_batch_add_job request background_tasks new_id db =
     (if add_source_collection_id request \<notin> collections db
         \<or> add_target_collection_id request \<notin> collections db
      then (Inl (HTTPException 404 ''Collection not found''), background_tasks, db)
      else
        let job = new_BatchJob ADD (add_source_collection_id request)
                    (Some (add_target_collection_id request))
                    (int (length (add_company_ids request))) (add_company_ids request);
            db' = db\<lparr>jobs := (jobs db)(new_id \<mapsto> job)\<rparr>
        in (Inr (response_of new_id job), background_tasks @ [new_id], db'))"

text \<open>\<^verbatim>\<open>create_batch_delete_job\<close> (lines 245-290).\<close>

definition create_batch_delete_job ::
    "BatchDeleteRequest \<Rightarrow> uuid list \<Rightarrow> uuid \<Rightarrow> database
      \<Rightarrow> (HTTPException + BatchJobResponse) \<times> uuid list \<times> database" where
  "create_batch_delete_job request background_tasks new_id db =
     (if del_collection_id request \<notin> collections db
      then (Inl (HTTPException 404 ''Collection not found''), background_tasks, db)
      else
        let job = new_BatchJob DELETE (del_collection_id request) None
                    (int (length (del_company_ids request))) (del_company_ids request);
            db' = db\<lparr>jobs := (jobs db)(new_id \<mapsto> job)\<rparr>
        in (Inr (response_of new_id job), background_tasks @ [new_id], db'))"

section \<open>Status query and cancellation\<close>

text \<open>\<^verbatim>\<open>get_batch_job_status\<close> (lines 200-221).\<close>

definition get_batch_job_status :: "uuid \<Rightarrow> database \<Rightarrow> HTTPException + BatchJobResponse" where
  "get_batch_job_status job_id db =
     (case jobs db job_id of
        None \<Rightarrow> Inl (HTTPException 404 ''Job not found'')
      | Some job \<Rightarrow> Inr (response_of job_id job))"

text \<open>
  \<^verbatim>\<open>cancel_batch_job\<close> (lines 224-242): the only write is the assignment to
  \<^verbatim>\<open>job.status\<close>, committed at line 240.
\<close>

definition cancel_batch_job :: "uuid \<Rightarrow> database \<Rightarrow> (HTTPException + string) \<times> database" where
  "cancel_batch_job job_id db =
     (case jobs db job_id of
        None \<Rightarrow> (Inl (HTTPException 404 ''Job not found''), db)
      | Some job \<Rightarrow>
          if status job \<in> set [COMPLETED, FAILED, CANCELLED]
          then (Inl (HTTPException 400 ''Job cannot be cancelled in current status''), db)
          else (Inr ''Job cancelled successfully'',
                db\<lparr>jobs := (jobs db)(job_id \<mapsto> job\<lparr>status := CANCELLED\<rparr>)\<rparr>))"

section \<open>The executor\<close>

text \<open>
  The executor shares nothing with the request handlers but the store, so what it
  reads at line 82 depends on the cancellation requests served in between.  An
  environment says at which points of a run \<^verbatim>\<open>cancel_batch_job\<close> is called on the
  job, and which chunk (named by its offset in the id list) raises, at which
  statement and with which message.  The points of a cancellation are: between the
  query of line 51 and the commit of line 62; before the refresh of a chunk; between
  that refresh and the next write of the job row; before each of the two commits
  that follow the loop.  Deleting a collection, which removes its job rows, is not
  an action of these environments, and neither is a raise of a statement outside the
  loop (lines 51, 62, 65, 132 and 136).
\<close>

datatype point = AtStart | AtCheck nat | During nat | AtFinal | AtCompleted

text \<open>
  The statements of one loop iteration that can raise: the refresh of line 82; the
  existence queries of lines 94-99; \<^verbatim>\<open>bulk_save_objects\<close> at line 111; the commit of
  line 112; the delete of lines 117-122 for the \<open>k\<close>-th id of the chunk (counted from
  0); the commit of line 123; the commit of line 128.  A statement that raises has no
  effect of its own, and it raises only if the run reaches it.
\<close>

datatype failure_site =
    InRefresh | InQuery | InBulkSave | InInsertCommit | InDelete nat | InDeleteCommit
  | InProgressCommit

record environment =
  cancel_requested :: "point \<Rightarrow> bool"
  chunk_failure :: "nat \<Rightarrow> (failure_site \<times> string) option"

definition raise_at :: "(failure_site \<times> string) option \<Rightarrow> failure_site \<Rightarrow> string option" where
  "raise_at failure site =
     (case failure of
        None \<Rightarrow> None
      | Some (s, msg) \<Rightarrow> if s = site then Some msg else None)"

definition env_step :: "environment \<Rightarrow> point \<Rightarrow> uuid \<Rightarrow> database \<Rightarrow> database" where
  "env_step E p job_id db =
     (if cancel_requested E p then snd (cancel_batch_job job_id db) else db)"

text \<open>
  An attribute assignment followed by \<^verbatim>\<open>db.commit()\<close> updates the assigned columns
  of the stored row and leaves the others as they are in the store.
\<close>

definition update_job :: "uuid \<Rightarrow> (BatchJob \<Rightarrow> BatchJob) \<Rightarrow> database \<Rightarrow> database" where
  "update_job job_id f db =
     (case jobs db job_id of
        None \<Rightarrow> db
      | Some j \<Rightarrow> db\<lparr>jobs := (jobs db)(job_id \<mapsto> f j)\<rparr>)"

text \<open>
  \<^verbatim>\<open>range(start, stop, step)\<close> for the steps the executor uses (1 and 5).  Python
  raises on step 0; the executor never passes it.
\<close>

function py_range :: "nat \<Rightarrow> nat \<Rightarrow> nat \<Rightarrow> nat list" where
  "py_range start stop step =
     (if step = 0 \<or> stop \<le> start then []
      else start # py_range (start + step) stop step)"
  by pat_completeness auto
termination
  by (relation "measure (\<lambda>(start, stop, step). stop - start)") auto

declare py_range.simps [simp del]

text \<open>Lines 94-99: the first row with this company and collection, if any.\<close>

definition existing_association ::
    "database \<Rightarrow> int \<Rightarrow> uuid option \<Rightarrow> CompanyCollectionAssociation option" where
  "existing_association db cid coll =
     find (\<lambda>a. company_id a = cid \<and> collection_id a = coll) (associations db)"

text \<open>
  Lines 91-107: every id of the chunk is checked against the store as it is before
  the chunk's insert; the ids without a row are staged.
\<close>

definition associations_to_add ::
    "database \<Rightarrow> uuid option \<Rightarrow> int list \<Rightarrow> CompanyCollectionAssociation list" where
  "associations_to_add db target batch_ids =
     concat (map (\<lambda>cid.
        if existing_association db cid target = None
        then [\<lparr> company_id = cid, collection_id = target \<rparr>] else []) batch_ids)"

text \<open>Lines 116-122: one filtered delete per id of the chunk.\<close>

definition delete_associations ::
    "uuid \<Rightarrow> int list \<Rightarrow> CompanyCollectionAssociation list \<Rightarrow> CompanyCollectionAssociation list" where
  "delete_associations source batch_ids rows =
     fold (\<lambda>cid rs. filter (\<lambda>a. \<not> (company_id a = cid \<and> collection_id a = Some source)) rs)
       batch_ids rows"

text \<open>
  A run is observed through its commits: each entry of the trace is the line
  that committed (with the chunk's offset inside the loop) and the store right
  after it.
\<close>

datatype commit_point =
    CommitStart | CommitInsert nat | CommitDelete nat | CommitProgress nat
  | CommitFinal | CommitCompleted | CommitFailed

type_synonym trace = "(commit_point \<times> database) list"

text \<open>
  Lines 89-123, the mutation of one chunk.  The result is either the store and the
  commits of the chunk, or, when a statement raises, the message and the store as the
  statements before it have left it.  Nothing undoes those statements: the handler of
  lines 138-142 only assigns two columns and commits, so rows inserted by line 111 or
  deleted by lines 117-122 before the raise are committed by line 142.
\<close>

definition process_chunk ::
    "(failure_site \<times> string) option \<Rightarrow> BatchJob \<Rightarrow> nat \<Rightarrow> int list \<Rightarrow> database
      \<Rightarrow> (string \<times> database) + (database \<times> trace)" where
  "process_chunk failure job i batch_ids db =
     (case job_type job of
        ADD \<Rightarrow>
          (case raise_at failure InQuery of
             Some msg \<Rightarrow> Inl (msg, db)
           | None \<Rightarrow>
               let to_add = associations_to_add db (target_collection_id job) batch_ids
               in if to_add \<noteq> []
                  then (case raise_at failure InBulkSave of
                          Some msg \<Rightarrow> Inl (msg, db)
                        | None \<Rightarrow>
                            let db' = db\<lparr>associations := associations db @ to_add\<rparr>
                            in (case raise_at failure InInsertCommit of
                                  Some msg \<Rightarrow> Inl (msg, db')
                                | None \<Rightarrow> Inr (db', [(CommitInsert i, db')])))
                  else Inr (db, []))
      | DELETE \<Rightarrow>
          (case failure of
             Some (InDelete k, msg) \<Rightarrow>
               if k < length batch_ids
               then Inl (msg, db\<lparr>associations :=
                       delete_associations (source_collection_id job) (take k batch_ids)
                         (associations db)\<rparr>)
               else
                 let db' = db\<lparr>associations :=
                       delete_associations (source_collection_id job) batch_ids
                         (associations db)\<rparr>
                 in Inr (db', [(CommitDelete i, db')])
           | _ \<Rightarrow>
               let db' = db\<lparr>associations :=
                     delete_associations (source_collection_id job) batch_ids
                       (associations db)\<rparr>
               in (case raise_at failure InDeleteCommit of
                     Some msg \<Rightarrow> Inl (msg, db')
                   | None \<Rightarrow> Inr (db', [(CommitDelete i, db')]))))"

text \<open>
  How the loop of lines 80-128 is left: it ran to its end with this value of
  \<^verbatim>\<open>processed\<close>; it returned at line 85; a statement of a chunk raised; or the
  refresh found no row (which no environment above brings about).

  When the commit of line 128 raises, the assignment of line 127 has been made and
  nothing takes it back before the handler commits, so the store handed to the
  handler carries the new count; the trace, which holds the commits that succeeded,
  does not.
\<close>

datatype loop_exit = Done int | Returned nat | Raised nat string | RowMissing nat

fun run_chunks ::
    "environment \<Rightarrow> uuid \<Rightarrow> int list \<Rightarrow> nat \<Rightarrow> nat list \<Rightarrow> int \<Rightarrow> database
      \<Rightarrow> loop_exit \<times> database \<times> trace" where
  "run_chunks E job_id company_ids batch_size [] processed db = (Done processed, db, [])"
| "run_chunks E job_id company_ids batch_size (i # rest) processed db =
     (let db1 = env_step E (AtCheck i) job_id db
      in case raise_at (chunk_failure E i) InRefresh of
           Some msg \<Rightarrow> (Raised i msg, db1, [])
         | None \<Rightarrow>
             (case jobs db1 job_id of
                None \<Rightarrow> (RowMissing i, db1, [])
              | Some job \<Rightarrow>
                  if status job = CANCELLED then (Returned i, db1, [])
                  else
                    let db2 = env_step E (During i) job_id db1;
                        batch_ids = take batch_size (drop i company_ids)
                    in case process_chunk (chunk_failure E i) job i batch_ids db2 of
                         Inl (msg, db3) \<Rightarrow> (Raised i msg, db3, [])
                       | Inr (db3, tr3) \<Rightarrow>
                           let processed' = processed + int (length batch_ids);
                               db4 = update_job job_id
                                       (\<lambda>j. j\<lparr>processed_count := processed'\<rparr>) db3
                           in case raise_at (chunk_failure E i) InProgressCommit of
                                Some msg \<Rightarrow> (Raised i msg, db4, tr3)
                              | None \<Rightarrow>
                                  let (r, db5, tr5) =
                                        run_chunks E job_id company_ids batch_size rest
                                          processed' db4
                                  in (r, db5, tr3 @ (CommitProgress i, db4) # tr5)))"

datatype outcome =
    NoJob | CancelledBeforeStart | CancelledAt nat | FailedAt nat string | Vanished nat
  | Completed

text \<open>\<^verbatim>\<open>process_batch_job\<close> (lines 40-145).\<close>

definition process_batch_job ::
    "environment \<Rightarrow> uuid \<Rightarrow> database \<Rightarrow> outcome \<times> database \<times> trace" where
  "process_batch_job E job_id db =
     (case jobs db job_id of
        None \<Rightarrow> (NoJob, db, [])
      | Some job \<Rightarrow>
          if status job = CANCELLED then (CancelledBeforeStart, db, [])
          else
            let db1 = update_job job_id (\<lambda>j. j\<lparr>status := IN_PROGRESS\<rparr>)
                        (env_step E AtStart job_id db);
                company_ids = company_ids_json job;
                total_items = length company_ids;
                batch_size = (if total_items \<le> 100 then 1 else 5);
                (r, db2, tr) =
                  run_chunks E job_id company_ids batch_size
                    (py_range 0 (length company_ids) batch_size) 0 db1
            in case r of
                 Returned i \<Rightarrow> (CancelledAt i, db2, (CommitStart, db1) # tr)
               | RowMissing i \<Rightarrow> (Vanished i, db2, (CommitStart, db1) # tr)
               | Raised i msg \<Rightarrow>
                   let db3 = update_job job_id
                               (\<lambda>j. j\<lparr>status := FAILED, error_message := Some msg\<rparr>) db2
                   in (FailedAt i msg, db3, (CommitStart, db1) # tr @ [(CommitFailed, db3)])
               | Done processed \<Rightarrow>
                   let db3 = update_job job_id (\<lambda>j. j\<lparr>processed_count := processed\<rparr>)
                               (env_step E AtFinal job_id db2);
                       db4 = update_job job_id (\<lambda>j. j\<lparr>status := COMPLETED\<rparr>)
                               (env_step E AtCompleted job_id db3)
                   in (Completed, db4,
                       (CommitStart, db1) # tr @ [(CommitFinal, db3), (CommitCompleted, db4)]))"

text \<open>The environment in which nobody cancels and no chunk raises.\<close>

definition quiet :: environment where
  "quiet = \<lparr> cancel_requested = (\<lambda>p. False), chunk_failure = (\<lambda>i. None) \<rparr>"

text \<open>What a committed state shows of a job, and the commits of line 128 in a trace.\<close>

definition job_field :: "(BatchJob \<Rightarrow> 'a) \<Rightarrow> uuid \<Rightarrow> database \<Rightarrow> 'a option" where
  "job_field f job_id db = map_option f (jobs db job_id)"

fun is_progress :: "commit_point \<Rightarrow> bool" where
  "is_progress (CommitProgress i) = True"
| "is_progress _ = False"

definition progress_sequence :: "uuid \<Rightarrow> trace \<Rightarrow> int option list" where
  "progress_sequence job_id tr =
     map (\<lambda>(c, db). job_field processed_count job_id db) (filter (\<lambda>(c, db). is_progress c) tr)"

section \<open>Notions used to state the properties\<close>

text \<open>
  Two job rows agree on every column that neither the executor's progress commits
  nor a cancellation writes.
\<close>

definition job_frame :: "BatchJob \<Rightarrow> BatchJob \<Rightarrow> bool" where
  "job_frame j j' \<longleftrightarrow>
     job_type j' = job_type j \<and> source_collection_id j' = source_collection_id j
     \<and> target_collection_id j' = target_collection_id j \<and> total_count j' = total_count j
     \<and> company_ids_json j' = company_ids_json j \<and> error_message j' = error_message j"

text \<open>The values of one column of a job in the successive committed states.\<close>

definition committed :: "(BatchJob \<Rightarrow> 'a) \<Rightarrow> uuid \<Rightarrow> trace \<Rightarrow> 'a option list" where
  "committed f job_id tr = map (\<lambda>(c, d). job_field f job_id d) tr"

text \<open>An environment that never cancels and in which no chunk raises.\<close>

definition undisturbed :: "environment \<Rightarrow> bool" where
  "undisturbed E \<longleftrightarrow> (\<forall>p. \<not> cancel_requested E p) \<and> (\<forall>i. chunk_failure E i = None)"


text \<open>
  Names for the parts of \<open>process_batch_job\<close>: the store after the commit of
  line 62, the batch size of lines 70-75, the offsets of line 80, and the loop
  run on them.
\<close>

definition started :: "environment \<Rightarrow> uuid \<Rightarrow> database \<Rightarrow> database" where
  "started E job_id db =
     update_job job_id (\<lambda>j. j\<lparr>status := IN_PROGRESS\<rparr>) (env_step E AtStart job_id db)"

definition chunk_size :: "BatchJob \<Rightarrow> nat" where
  "chunk_size job = (if length (company_ids_json job) \<le> 100 then 1 else 5)"

definition offsets :: "BatchJob \<Rightarrow> nat list" where
  "offsets job = py_range 0 (length (company_ids_json job)) (chunk_size job)"

definition run_loop ::
    "environment \<Rightarrow> uuid \<Rightarrow> BatchJob \<Rightarrow> database \<Rightarrow> loop_exit \<times> database \<times> trace" where
  "run_loop E job_id job db =
     run_chunks E job_id (company_ids_json job) (chunk_size job) (offsets job) 0
       (started E job_id db)"

text \<open>
  The association rows after the statements of a chunk that ran before a raise at
  the given statement, starting from the rows of a store: the rows staged and saved
  when the commit of line 112 raises, the deletes of the ids before the one whose
  delete raises, all the deletes of the chunk when the commit of line 123 raises, and
  the rows as they are otherwise.
\<close>

definition ran_before ::
    "failure_site \<Rightarrow> BatchJob \<Rightarrow> int list \<Rightarrow> database \<Rightarrow> CompanyCollectionAssociation list" where
  "ran_before site job batch_ids db =
     (case site of
        InInsertCommit \<Rightarrow>
          associations db @ associations_to_add db (target_collection_id job) batch_ids
      | InDelete k \<Rightarrow>
          delete_associations (source_collection_id job) (take k batch_ids) (associations db)
      | InDeleteCommit \<Rightarrow>
          delete_associations (source_collection_id job) batch_ids (associations db)
      | _ \<Rightarrow> associations db)"

section \<open>Example stores\<close>

text \<open>
  A store with two collections, in which company 2 already belongs to collection 2,
  and the same store holding, under key 7, an ADD job over the companies 1, 2, 3
  from collection 1 to collection 2, in a given status.
\<close>

definition ex_store :: database where
  "ex_store = \<lparr> jobs = Map.empty, collections = {1, 2},
                associations = [\<lparr> company_id = 2, collection_id = Some 2 \<rparr>] \<rparr>"

definition ex_job :: "BatchJobStatus \<Rightarrow> BatchJob" where
  "ex_job st = (new_BatchJob ADD 1 (Some 2) 3 [1, 2, 3])\<lparr>status := st\<rparr>"

definition ex_db :: "BatchJobStatus \<Rightarrow> database" where
  "ex_db st = ex_store\<lparr>jobs := [7 \<mapsto> ex_job st]\<rparr>"

text \<open>An ADD request whose source and target are the same existing collection.\<close>

definition ex_same_request :: BatchAddRequest where
  "ex_same_request =
     \<lparr> add_source_collection_id = 1, add_target_collection_id = 1, add_company_ids = [5] \<rparr>"

text \<open>An ADD request that names a collection the store does not have.\<close>

definition ex_missing_request :: BatchAddRequest where
  "ex_missing_request =
     \<lparr> add_source_collection_id = 1, add_target_collection_id = 3, add_company_ids = [5] \<rparr>"

text \<open>An ADD request over the companies 1, 2, 3 from collection 1 to collection 2.\<close>

definition ex_request :: BatchAddRequest where
  "ex_request =
     \<lparr> add_source_collection_id = 1, add_target_collection_id = 2,
       add_company_ids = [1, 2, 3] \<rparr>"

text \<open>
  Environments: one in which the job is cancelled just before the executor
  refreshes it for the chunk at offset 1; one in which an existence query of the
  chunk at offset 2 raises; one in which the commit of line 128 raises for the chunk
  at offset 0; one in which the delete of the third id of the chunk at offset 0
  raises.
\<close>

definition ex_env_cancel :: environment where
  "ex_env_cancel = \<lparr> cancel_requested = (\<lambda>p. p = AtCheck 1), chunk_failure = (\<lambda>i. None) \<rparr>"

definition ex_env_fail :: environment where
  "ex_env_fail =
     \<lparr> cancel_requested = (\<lambda>p. False),
       chunk_failure = (\<lambda>i. if i = 2 then Some (InQuery, ''boom'') else None) \<rparr>"



text \<open>
  The store \<open>ex_db PENDING\<close> in which the companies 1, 2 and 3 all belong to
  collection 2 already.
\<close>

definition ex_present_db :: database where
  "ex_present_db =
     (ex_db PENDING)\<lparr>associations :=
        map (\<lambda>c. \<lparr> company_id = c, collection_id = Some 2 \<rparr>) [1, 2, 3]\<rparr>"

text \<open>
  A store holding, under key 7, a pending DELETE job on collection 1 over the
  companies \<open>0, ..., n - 1\<close>.
\<close>

definition ex_delete_job :: "nat \<Rightarrow> BatchJob" where
  "ex_delete_job n = new_BatchJob DELETE 1 None (int n) (map int [0..<n])"

definition ex_delete_db :: "nat \<Rightarrow> database" where
  "ex_delete_db n = ex_store\<lparr>jobs := [7 \<mapsto> ex_delete_job n]\<rparr>"


section \<open>Cancellation requests\<close>

lemma cancel_unknown:
  "jobs db job_id = None \<Longrightarrow>
     cancel_batch_job job_id db = (Inl (HTTPException 404 ''Job not found''), db)"
  by (simp add: cancel_batch_job_def)


lemma cancel_active:
  "jobs db job_id = Some job \<Longrightarrow> status job = PENDING \<or> status job = IN_PROGRESS \<Longrightarrow>
     cancel_batch_job job_id db =
       (Inr ''Job cancelled successfully'',
        db\<lparr>jobs := (jobs db)(job_id \<mapsto> job\<lparr>status := CANCELLED\<rparr>)\<rparr>)"
  by (auto simp add: cancel_batch_job_def)

text \<open>
  C5.  A cancellation request against a job whose status is COMPLETED, FAILED or
  CANCELLED raises the conflict of line 237 (HTTP status 400, "Job cannot be
  cancelled in current status") and leaves the whole store, hence every field of
  the job row, as it was; a request against an unknown job id raises "Job not
  found" (HTTP status 404), again with the store unchanged.
\<close>

theorem cancel_batch_job_rejects:
  "(jobs db job_id = None \<longrightarrow>
      cancel_batch_job job_id db = (Inl (HTTPException 404 ''Job not found''), db))
   \<and> (\<forall>job. jobs db job_id = Some job \<and> status job \<in> {COMPLETED, FAILED, CANCELLED} \<longrightarrow>
      cancel_batch_job job_id db =
        (Inl (HTTPException 400 ''Job cannot be cancelled in current status''), db))"
  by (auto simp add: cancel_batch_job_def)

theorem cancel_batch_job_rejects_witness:
  "jobs ex_store 7 = None
   \<and> cancel_batch_job 7 ex_store = (Inl (HTTPException 404 ''Job not found''), ex_store)
   \<and> jobs (ex_db FAILED) 7 = Some (ex_job FAILED)
   \<and> status (ex_job FAILED) \<in> {COMPLETED, FAILED, CANCELLED}
   \<and> cancel_batch_job 7 (ex_db FAILED) =
        (Inl (HTTPException 400 ''Job cannot be cancelled in current status''), ex_db FAILED)"
proof -
  have a: "jobs ex_store 7 = None"
    by (simp add: ex_store_def)
  have b: "jobs (ex_db FAILED) 7 = Some (ex_job FAILED)"
    by (simp add: ex_db_def)
  have c: "status (ex_job FAILED) \<in> {COMPLETED, FAILED, CANCELLED}"
    by (simp add: ex_job_def)
  from cancel_batch_job_rejects [of ex_store 7] a
  have "cancel_batch_job 7 ex_store = (Inl (HTTPException 404 ''Job not found''), ex_store)"
    by simp
  moreover from cancel_batch_job_rejects [of "ex_db FAILED" 7] b c
  have "cancel_batch_job 7 (ex_db FAILED) =
          (Inl (HTTPException 400 ''Job cannot be cancelled in current status''), ex_db FAILED)"
    by blast
  ultimately show ?thesis using a b c by simp
qed

text \<open>
  C10.  A cancellation request against an existing job in status PENDING or
  IN_PROGRESS succeeds, and the store after it differs from the store before it in
  the status of that job row only: the row's job type, source and target
  collection, total and processed count, identifier list and error message are
  what they were, every other job row is untouched, and so are the association
  rows and the collections.
\<close>

theorem cancel_batch_job_frame:
  assumes "jobs db job_id = Some job"
    and "status job = PENDING \<or> status job = IN_PROGRESS"
  shows "\<exists>db' job'.
      cancel_batch_job job_id db = (Inr ''Job cancelled successfully'', db')
      \<and> jobs db' job_id = Some job'
      \<and> status job' = CANCELLED
      \<and> job_type job' = job_type job
      \<and> source_collection_id job' = source_collection_id job
      \<and> target_collection_id job' = target_collection_id job
      \<and> total_count job' = total_count job
      \<and> processed_count job' = processed_count job
      \<and> company_ids_json job' = company_ids_json job
      \<and> error_message job' = error_message job
      \<and> (\<forall>k. k \<noteq> job_id \<longrightarrow> jobs db' k = jobs db k)
      \<and> associations db' = associations db
      \<and> collections db' = collections db"
  using assms by (auto simp add: cancel_batch_job_def)

theorem cancel_batch_job_frame_witness:
  "\<exists>db' job'.
      cancel_batch_job 7 (ex_db IN_PROGRESS) = (Inr ''Job cancelled successfully'', db')
      \<and> jobs db' 7 = Some job'
      \<and> status job' = CANCELLED
      \<and> job_type job' = job_type (ex_job IN_PROGRESS)
      \<and> source_collection_id job' = source_collection_id (ex_job IN_PROGRESS)
      \<and> target_collection_id job' = target_collection_id (ex_job IN_PROGRESS)
      \<and> total_count job' = total_count (ex_job IN_PROGRESS)
      \<and> processed_count job' = processed_count (ex_job IN_PROGRESS)
      \<and> company_ids_json job' = company_ids_json (ex_job IN_PROGRESS)
      \<and> error_message job' = error_message (ex_job IN_PROGRESS)
      \<and> (\<forall>k. k \<noteq> 7 \<longrightarrow> jobs db' k = jobs (ex_db IN_PROGRESS) k)
      \<and> associations db' = associations (ex_db IN_PROGRESS)
      \<and> collections db' = collections (ex_db IN_PROGRESS)"
proof -
  have a: "jobs (ex_db IN_PROGRESS) 7 = Some (ex_job IN_PROGRESS)"
    by (simp add: ex_db_def)
  have b: "status (ex_job IN_PROGRESS) = PENDING \<or> status (ex_job IN_PROGRESS) = IN_PROGRESS"
    by (simp add: ex_job_def)
  show ?thesis
    by (rule cancel_batch_job_frame [OF a b])
qed

section \<open>Pickup of a cancelled job\<close>

text \<open>
  C6.  When the job row the executor finds at line 51 has status CANCELLED, the
  executor returns at line 58: the store is left exactly as it was (the status is
  not set to IN_PROGRESS, no association row is inserted or deleted, the processed
  count is not written) and nothing is committed.
\<close>

theorem process_batch_job_cancelled_at_pickup:
  assumes "jobs db job_id = Some job" and "status job = CANCELLED"
  shows "process_batch_job E job_id db = (CancelledBeforeStart, db, [])"
  using assms by (simp add: process_batch_job_def)

theorem process_batch_job_cancelled_at_pickup_witness:
  "jobs (ex_db CANCELLED) 7 = Some (ex_job CANCELLED)
   \<and> status (ex_job CANCELLED) = CANCELLED
   \<and> process_batch_job quiet 7 (ex_db CANCELLED) = (CancelledBeforeStart, ex_db CANCELLED, [])"
proof -
  have a: "jobs (ex_db CANCELLED) 7 = Some (ex_job CANCELLED)"
    by (simp add: ex_db_def)
  have b: "status (ex_job CANCELLED) = CANCELLED"
    by (simp add: ex_job_def)
  from process_batch_job_cancelled_at_pickup [OF a b, of quiet] a b show ?thesis
    by simp
qed

section \<open>Validation at submission\<close>

text \<open>
  C1 (as amended).  An ADD submission is rejected, with "Collection not found"
  (HTTP status 404), the store unchanged and nothing dispatched, when its source
  or its target collection does not exist.  When both exist the submission is
  accepted, whether or not the two ids are equal: a PENDING job row with processed
  count 0 is stored under the new id and the id is handed to the executor.
\<close>

theorem create_batch_add_job_validation:
  "(add_source_collection_id request \<notin> collections db
      \<or> add_target_collection_id request \<notin> collections db \<longrightarrow>
      create_batch_add_job request background_tasks new_id db
        = (Inl (HTTPException 404 ''Collection not found''), background_tasks, db))
   \<and> (add_source_collection_id request \<in> collections db
      \<and> add_target_collection_id request \<in> collections db \<longrightarrow>
      fst (create_batch_add_job request background_tasks new_id db)
        = Inr \<lparr> resp_job_id = new_id, resp_status = PENDING, resp_job_type = ADD,
                resp_total_count = int (length (add_company_ids request)),
                resp_processed_count = 0, resp_error_message = None \<rparr>
      \<and> fst (snd (create_batch_add_job request background_tasks new_id db))
        = background_tasks @ [new_id]
      \<and> jobs (snd (snd (create_batch_add_job request background_tasks new_id db))) new_id
        = Some \<lparr> job_type = ADD,
                 source_collection_id = add_source_collection_id request,
                 target_collection_id = Some (add_target_collection_id request),
                 total_count = int (length (add_company_ids request)),
                 processed_count = 0, status = PENDING,
                 company_ids_json = add_company_ids request, error_message = None \<rparr>)"
  by (simp add: create_batch_add_job_def Let_def new_BatchJob_def response_of_def)

theorem create_batch_add_job_validation_witness:
  "add_target_collection_id ex_missing_request \<notin> collections ex_store
   \<and> create_batch_add_job ex_missing_request [] 9 ex_store
        = (Inl (HTTPException 404 ''Collection not found''), [], ex_store)
   \<and> add_source_collection_id ex_same_request \<in> collections ex_store
   \<and> add_target_collection_id ex_same_request \<in> collections ex_store
   \<and> fst (create_batch_add_job ex_same_request [] 9 ex_store)
        = Inr \<lparr> resp_job_id = 9, resp_status = PENDING, resp_job_type = ADD,
                resp_total_count = 1, resp_processed_count = 0, resp_error_message = None \<rparr>
   \<and> fst (snd (create_batch_add_job ex_same_request [] 9 ex_store)) = [9]
   \<and> jobs (snd (snd (create_batch_add_job ex_same_request [] 9 ex_store))) 9
        = Some \<lparr> job_type = ADD, source_collection_id = 1, target_collection_id = Some 1,
                 total_count = 1, processed_count = 0, status = PENDING,
                 company_ids_json = [5], error_message = None \<rparr>"
proof -
  have a: "add_target_collection_id ex_missing_request \<notin> collections ex_store"
    by (simp add: ex_missing_request_def ex_store_def)
  have b: "add_source_collection_id ex_same_request \<in> collections ex_store"
    and c: "add_target_collection_id ex_same_request \<in> collections ex_store"
    by (simp_all add: ex_same_request_def ex_store_def)
  from create_batch_add_job_validation [of ex_missing_request ex_store "[]" 9] a
  have d: "create_batch_add_job ex_missing_request [] 9 ex_store
        = (Inl (HTTPException 404 ''Collection not found''), [], ex_store)"
    by blast
  have e: "add_source_collection_id ex_same_request = 1"
      "add_target_collection_id ex_same_request = 1"
      "add_company_ids ex_same_request = [5]"
    by (simp_all add: ex_same_request_def)
  from create_batch_add_job_validation [of ex_same_request ex_store "[]" 9] b c
  show ?thesis using a d by (simp add: e)
qed

text \<open>
  The request \<open>ex_same_request\<close> has collection 1 as its source and as its target;
  \<^verbatim>\<open>create_batch_add_job\<close> compares neither with the other, answers with a job
  descriptor and stores the job.
\<close>

theorem create_batch_add_job_same_collection_counterexample:
  "add_source_collection_id ex_same_request = add_target_collection_id ex_same_request
   \<and> fst (create_batch_add_job ex_same_request [] 9 ex_store)
       = Inr (response_of 9 (new_BatchJob ADD 1 (Some 1) 1 [5]))
   \<and> jobs ex_store 9 = None
   \<and> jobs (snd (snd (create_batch_add_job ex_same_request [] 9 ex_store))) 9
       = Some (new_BatchJob ADD 1 (Some 1) 1 [5])"
  by (simp add: create_batch_add_job_def ex_same_request_def ex_store_def Let_def)

section \<open>The environment and the writes of the executor\<close>


lemma cancel_twice:
  "snd (cancel_batch_job job_id (snd (cancel_batch_job job_id db)))
     = snd (cancel_batch_job job_id db)"
  by (cases "jobs db job_id") (auto simp add: cancel_batch_job_def)

lemma cancel_associations [simp]:
  "associations (snd (cancel_batch_job job_id db)) = associations db"
  by (simp add: cancel_batch_job_def split: option.splits)

lemma cancel_collections [simp]:
  "collections (snd (cancel_batch_job job_id db)) = collections db"
  by (simp add: cancel_batch_job_def split: option.splits)


lemma env_step_associations [simp]:
  "associations (env_step E p job_id db) = associations db"
  by (simp add: env_step_def cancel_batch_job_def split: option.splits)

lemma env_step_collections [simp]:
  "collections (env_step E p job_id db) = collections db"
  by (simp add: env_step_def cancel_batch_job_def split: option.splits)

lemma env_step_job:
  assumes "jobs db job_id = Some j"
  shows "\<exists>j'. jobs (env_step E p job_id db) job_id = Some j' \<and> job_frame j j'
           \<and> processed_count j' = processed_count j
           \<and> (status j' = status j \<or> status j' = CANCELLED)"
  using assms by (auto simp add: env_step_def cancel_batch_job_def job_frame_def)

lemma env_step_job_None:
  "jobs (env_step E p job_id db) job_id = None \<longleftrightarrow> jobs db job_id = None"
  by (auto simp add: env_step_def cancel_batch_job_def split: option.splits)

lemma env_step_quiet [simp]: "env_step quiet p job_id db = db"
  by (simp add: env_step_def quiet_def)

lemma update_job_associations [simp]:
  "associations (update_job job_id f db) = associations db"
  by (simp add: update_job_def split: option.splits)

lemma update_job_collections [simp]:
  "collections (update_job job_id f db) = collections db"
  by (simp add: update_job_def split: option.splits)

lemma update_job_row:
  "jobs (update_job job_id f db) job_id = map_option f (jobs db job_id)"
  by (simp add: update_job_def split: option.splits)

lemma raise_at_None [simp]: "raise_at None site = None"
  by (simp add: raise_at_def)

lemma raise_at_Some:
  "raise_at failure site = Some msg \<longleftrightarrow> failure = Some (site, msg)"
  by (auto simp add: raise_at_def split: option.splits)

lemma raise_at_not:
  "raise_at failure site = None \<longleftrightarrow> (\<forall>msg. failure \<noteq> Some (site, msg))"
  by (auto simp add: raise_at_def split: option.splits)

text \<open>A chunk whose mutation runs to its end.\<close>

lemma process_chunk_Inr_all:
  assumes "process_chunk failure job i batch_ids db = Inr (db3, tr3)"
  shows "jobs db3 = jobs db \<and> collections db3 = collections db
    \<and> (\<forall>(c, d) \<in> set tr3. d = db3 \<and> \<not> is_progress c
            \<and> (c = CommitInsert i \<or> c = CommitDelete i))
    \<and> (tr3 = [] \<longrightarrow> db3 = db)"
proof (cases "job_type job")
  case ADD
  with assms show ?thesis
    by (auto simp add: process_chunk_def Let_def split: if_splits option.splits)
next
  case DELETE
  show ?thesis
  proof (cases failure)
    case None
    with DELETE assms show ?thesis
      by (auto simp add: process_chunk_def Let_def)
  next
    case (Some p)
    obtain site msg where p: "p = (site, msg)" by (cases p)
    show ?thesis
      using DELETE assms Some p
      by (cases site) (auto simp add: process_chunk_def Let_def raise_at_def split: if_splits)
  qed
qed

lemma process_chunk_Inr:
  assumes "process_chunk failure job i batch_ids db = Inr (db3, tr3)"
  shows "jobs db3 = jobs db" and "collections db3 = collections db"
    and "\<forall>(c, d) \<in> set tr3. d = db3 \<and> \<not> is_progress c
            \<and> (c = CommitInsert i \<or> c = CommitDelete i)"
    and "tr3 = [] \<longrightarrow> db3 = db"
  using process_chunk_Inr_all [OF assms] by blast+

text \<open>A chunk in whose mutation a statement raises.\<close>

lemma process_chunk_Inl_all:
  assumes "process_chunk failure job i batch_ids db = Inl (msg, db3)"
  shows "jobs db3 = jobs db \<and> collections db3 = collections db
    \<and> (\<exists>site. failure = Some (site, msg) \<and> site \<noteq> InRefresh \<and> site \<noteq> InProgressCommit
            \<and> associations db3 = ran_before site job batch_ids db)"
proof (cases failure)
  case None
  with assms show ?thesis
    by (cases "job_type job")
       (auto simp add: process_chunk_def Let_def split: if_splits)
next
  case (Some p)
  obtain site m where p: "p = (site, m)" by (cases p)
  show ?thesis
  proof (cases "job_type job")
    case ADD
    with assms Some p show ?thesis
      by (cases site)
         (auto simp add: process_chunk_def Let_def raise_at_def ran_before_def
           split: if_splits)
  next
    case DELETE
    with assms Some p show ?thesis
      by (cases site)
         (auto simp add: process_chunk_def Let_def raise_at_def ran_before_def
           split: if_splits)
  qed
qed

lemma process_chunk_Inl:
  assumes "process_chunk failure job i batch_ids db = Inl (msg, db3)"
  shows "jobs db3 = jobs db" and "collections db3 = collections db"
    and "\<exists>site. failure = Some (site, msg) \<and> site \<noteq> InRefresh \<and> site \<noteq> InProgressCommit
            \<and> associations db3 = ran_before site job batch_ids db"
  using process_chunk_Inl_all [OF assms] by blast+

lemma process_chunk_None:
  "\<exists>db3 tr3. process_chunk None job i batch_ids db = Inr (db3, tr3)"
  by (auto simp add: process_chunk_def Let_def split: BatchJobType.splits)

lemma committed_append [simp]:
  "committed f job_id (xs @ ys) = committed f job_id xs @ committed f job_id ys"
  by (simp add: committed_def)

lemma committed_Cons [simp]:
  "committed f job_id ((c, d) # ys) = job_field f job_id d # committed f job_id ys"
  by (simp add: committed_def)

lemma committed_Nil [simp]: "committed f job_id [] = []"
  by (simp add: committed_def)

lemma committed_same:
  assumes "\<forall>(c, d) \<in> set tr. job_field f job_id d = v"
  shows "committed f job_id tr = replicate (length tr) v"
  using assms by (induction tr) (auto simp add: committed_def)

lemma run_chunks_Cons_cases:
  assumes "run_chunks E job_id ids bs (i # rest) processed db = (r, db', tr)"
  obtains
    (refresh_raised) msg where "chunk_failure E i = Some (InRefresh, msg)"
        "r = Raised i msg" "db' = env_step E (AtCheck i) job_id db" "tr = []"
  | (missing) "jobs (env_step E (AtCheck i) job_id db) job_id = None"
        "r = RowMissing i" "db' = env_step E (AtCheck i) job_id db" "tr = []"
  | (cancelled) job where "jobs (env_step E (AtCheck i) job_id db) job_id = Some job"
        "status job = CANCELLED"
        "r = Returned i" "db' = env_step E (AtCheck i) job_id db" "tr = []"
  | (chunk_raised) job msg where
        "jobs (env_step E (AtCheck i) job_id db) job_id = Some job"
        "status job \<noteq> CANCELLED"
        "process_chunk (chunk_failure E i) job i (take bs (drop i ids))
           (env_step E (During i) job_id (env_step E (AtCheck i) job_id db)) = Inl (msg, db')"
        "r = Raised i msg" "tr = []"
  | (progress_raised) job msg db3 where
        "jobs (env_step E (AtCheck i) job_id db) job_id = Some job"
        "status job \<noteq> CANCELLED"
        "process_chunk (chunk_failure E i) job i (take bs (drop i ids))
           (env_step E (During i) job_id (env_step E (AtCheck i) job_id db)) = Inr (db3, tr)"
        "chunk_failure E i = Some (InProgressCommit, msg)"
        "db' = update_job job_id
           (\<lambda>j. j\<lparr>processed_count := processed + int (length (take bs (drop i ids)))\<rparr>) db3"
        "r = Raised i msg"
  | (continue) job db3 tr3 db4 tr5 where
        "jobs (env_step E (AtCheck i) job_id db) job_id = Some job"
        "status job \<noteq> CANCELLED"
        "process_chunk (chunk_failure E i) job i (take bs (drop i ids))
           (env_step E (During i) job_id (env_step E (AtCheck i) job_id db)) = Inr (db3, tr3)"
        "db4 = update_job job_id
           (\<lambda>j. j\<lparr>processed_count := processed + int (length (take bs (drop i ids)))\<rparr>) db3"
        "run_chunks E job_id ids bs rest (processed + int (length (take bs (drop i ids)))) db4
           = (r, db', tr5)"
        "tr = tr3 @ (CommitProgress i, db4) # tr5"
proof (cases "raise_at (chunk_failure E i) InRefresh")
  case (Some msg)
  with assms show ?thesis
    by (intro refresh_raised [of msg]) (auto simp add: Let_def raise_at_Some)
next
  case nr: None
  let ?db1 = "env_step E (AtCheck i) job_id db"
  let ?db2 = "env_step E (During i) job_id ?db1"
  show ?thesis
  proof (cases "jobs ?db1 job_id")
    case None
    with assms nr show ?thesis
      by (intro missing) (auto simp add: Let_def)
  next
    case (Some job)
    show ?thesis
    proof (cases "status job = CANCELLED")
      case True
      with assms nr Some show ?thesis
        by (intro cancelled [of job]) (auto simp add: Let_def)
    next
      case False
      show ?thesis
      proof (cases "process_chunk (chunk_failure E i) job i (take bs (drop i ids)) ?db2")
        case (Inl a)
        obtain msg db3 where a: "a = (msg, db3)" by (cases a)
        with assms nr Some False Inl show ?thesis
          by (intro chunk_raised [of job msg]) (auto simp add: Let_def)
      next
        case (Inr b)
        obtain db3 tr3 where b: "b = (db3, tr3)" by (cases b)
        show ?thesis
        proof (cases "raise_at (chunk_failure E i) InProgressCommit")
          case (Some msg)
          with assms nr \<open>jobs ?db1 job_id = Some job\<close> False Inr b show ?thesis
            by (intro progress_raised [of job db3 msg])
               (auto simp add: Let_def raise_at_Some)
        next
          case None
          obtain r5 db5 tr5 where rec: "run_chunks E job_id ids bs rest
              (processed + int (length (take bs (drop i ids))))
              (update_job job_id
                (\<lambda>j. j\<lparr>processed_count := processed + int (length (take bs (drop i ids)))\<rparr>)
                db3) = (r5, db5, tr5)"
            by (cases "run_chunks E job_id ids bs rest
              (processed + int (length (take bs (drop i ids))))
              (update_job job_id
                (\<lambda>j. j\<lparr>processed_count := processed + int (length (take bs (drop i ids)))\<rparr>)
                db3)")
          with assms nr \<open>jobs ?db1 job_id = Some job\<close> False Inr b None show ?thesis
            by (intro continue [of job db3 tr3 _ tr5]) (auto simp add: Let_def)
        qed
      qed
    qed
  qed
qed

text \<open>What one chunk does to the job row, up to its progress commit.\<close>

lemma chunk_job_row:
  assumes "jobs db job_id = Some j"
    and "process_chunk failure job i batch_ids (env_step E q job_id (env_step E p job_id db))
           = Inr (db3, tr3)"
    and "db4 = update_job job_id (\<lambda>j. j\<lparr>processed_count := v\<rparr>) db3"
  shows "\<exists>j3 j4. jobs db3 job_id = Some j3 \<and> job_frame j j3
            \<and> processed_count j3 = processed_count j
            \<and> (status j3 = status j \<or> status j3 = CANCELLED)
            \<and> jobs db4 job_id = Some j4 \<and> job_frame j j4 \<and> processed_count j4 = v
            \<and> status j4 = status j3"
proof -
  from env_step_job [OF assms(1)] obtain j1 where
    j1: "jobs (env_step E p job_id db) job_id = Some j1" "job_frame j j1"
      "processed_count j1 = processed_count j" "status j1 = status j \<or> status j1 = CANCELLED"
    by blast
  from env_step_job [OF j1(1)] obtain j2 where
    j2: "jobs (env_step E q job_id (env_step E p job_id db)) job_id = Some j2" "job_frame j1 j2"
      "processed_count j2 = processed_count j1" "status j2 = status j1 \<or> status j2 = CANCELLED"
    by blast
  have j3: "jobs db3 job_id = Some j2"
    using process_chunk_Inr(1) [OF assms(2)] j2(1) by simp
  have j4: "jobs db4 job_id = Some (j2\<lparr>processed_count := v\<rparr>)"
    using j3 assms(3) by (simp add: update_job_row)
  show ?thesis
    using j1 j2 j3 j4 by (auto simp add: job_frame_def)
qed

text \<open>What a chunk in which a statement raises leaves of the job row.\<close>

lemma chunk_raise_row:
  assumes "jobs db job_id = Some j"
    and "process_chunk failure job i batch_ids (env_step E q job_id (env_step E p job_id db))
           = Inl (msg, db3)"
  shows "\<exists>j3. jobs db3 job_id = Some j3 \<and> job_frame j j3
            \<and> processed_count j3 = processed_count j"
proof -
  from env_step_job [OF assms(1)] obtain j1 where
    j1: "jobs (env_step E p job_id db) job_id = Some j1" "job_frame j j1"
      "processed_count j1 = processed_count j"
    by blast
  from env_step_job [OF j1(1)] obtain j2 where
    j2: "jobs (env_step E q job_id (env_step E p job_id db)) job_id = Some j2" "job_frame j1 j2"
      "processed_count j2 = processed_count j1"
    by blast
  have "jobs db3 job_id = Some j2"
    using process_chunk_Inl(1) [OF assms(2)] j2(1) by simp
  then show ?thesis
    using j1 j2 by (auto simp add: job_frame_def)
qed

section \<open>Invariants of the chunk loop\<close>

lemma run_chunks_job_persists:
  assumes "run_chunks E job_id ids bs offs processed db = (r, db', tr)"
    and "jobs db job_id = Some j"
  shows "(\<exists>j'. jobs db' job_id = Some j' \<and> job_frame j j')
         \<and> (\<forall>(c, d) \<in> set tr. \<exists>jd. jobs d job_id = Some jd \<and> job_frame j jd)
         \<and> (\<forall>i. r \<noteq> RowMissing i)"
  using assms
proof (induction offs arbitrary: processed db j r db' tr)
  case Nil
  then show ?case by (auto simp add: job_frame_def)
next
  case (Cons i rest)
  from Cons.prems(1) show ?case
  proof (cases rule: run_chunks_Cons_cases)
    case (refresh_raised msg)
    then show ?thesis using env_step_job [OF Cons.prems(2), of E "AtCheck i"] by auto
  next
    case missing
    then show ?thesis using Cons.prems(2) by (simp add: env_step_job_None)
  next
    case (cancelled job)
    then show ?thesis using env_step_job [OF Cons.prems(2), of E "AtCheck i"] by auto
  next
    case (chunk_raised job msg)
    from chunk_raise_row [OF Cons.prems(2) chunk_raised(3)] chunk_raised(4,5)
    show ?thesis by auto
  next
    case (progress_raised job msg db3)
    from chunk_job_row [OF Cons.prems(2) progress_raised(3) progress_raised(5)] obtain j3 j4 where
      j34: "jobs db3 job_id = Some j3" "job_frame j j3" "jobs db' job_id = Some j4"
        "job_frame j j4"
      by blast
    have "\<forall>(c, d) \<in> set tr. \<exists>jd. jobs d job_id = Some jd \<and> job_frame j jd"
      using process_chunk_Inr(3) [OF progress_raised(3)] j34(1,2) by auto
    with j34 progress_raised(6) show ?thesis by simp
  next
    case (continue job db3 tr3 db4 tr5)
    from chunk_job_row [OF Cons.prems(2) continue(3) continue(4)] obtain j3 j4 where
      j34: "jobs db3 job_id = Some j3" "job_frame j j3" "jobs db4 job_id = Some j4" "job_frame j j4"
      by blast
    from Cons.IH [OF continue(5) j34(3)] have
      ih: "\<exists>j'. jobs db' job_id = Some j' \<and> job_frame j4 j'"
          "\<forall>(c, d) \<in> set tr5. \<exists>jd. jobs d job_id = Some jd \<and> job_frame j4 jd"
          "\<forall>i. r \<noteq> RowMissing i"
      by blast+
    have t3: "\<forall>(c, d) \<in> set tr3. \<exists>jd. jobs d job_id = Some jd \<and> job_frame j jd"
      using process_chunk_Inr(3) [OF continue(3)] j34(1,2) by auto
    have fr: "\<And>x. job_frame j4 x \<Longrightarrow> job_frame j x"
      using j34(4) by (simp add: job_frame_def)
    show ?thesis
      using ih t3 j34 fr unfolding continue(6) by fastforce
  qed
qed

text \<open>
  The processed counts of the commits of a loop run never decrease, and neither they
  nor the count the loop leaves in the store exceed the count at its start plus the
  lengths of the chunks.
\<close>

lemma run_chunks_progress:
  assumes "run_chunks E job_id ids bs offs processed db = (r, db', tr)"
    and "jobs db job_id = Some j" and "processed_count j = processed"
  shows "\<exists>ps q. committed processed_count job_id tr = map Some ps
           \<and> sorted (processed # ps)
           \<and> job_field processed_count job_id db' = Some q
           \<and> last (processed # ps) \<le> q
           \<and> q \<le> processed + (\<Sum>i\<leftarrow>offs. int (length (take bs (drop i ids))))
           \<and> (\<forall>p. r = Done p \<longrightarrow>
                 p = processed + (\<Sum>i\<leftarrow>offs. int (length (take bs (drop i ids))))
                 \<and> p = q)"
  using assms
proof (induction offs arbitrary: processed db j r db' tr)
  case Nil
  then show ?case by (auto simp add: job_field_def)
next
  case (Cons i rest)
  let ?len = "int (length (take bs (drop i ids)))"
  let ?sum = "\<Sum>k\<leftarrow>rest. int (length (take bs (drop k ids)))"
  have sum_nonneg: "0 \<le> ?sum"
    by (rule sum_list_nonneg) auto
  from env_step_job [OF Cons.prems(2), of E "AtCheck i"] obtain j1 where
    j1: "jobs (env_step E (AtCheck i) job_id db) job_id = Some j1"
      "processed_count j1 = processed_count j" by blast
  have quiet_case: "\<exists>ps q. committed processed_count job_id [] = map Some ps
           \<and> sorted (processed # ps)
           \<and> Some processed = Some q
           \<and> last (processed # ps) \<le> q
           \<and> q \<le> processed + (?len + ?sum)"
    using sum_nonneg by (intro exI [of _ "[]"] exI [of _ processed]) simp
  from Cons.prems(1) show ?case
  proof (cases rule: run_chunks_Cons_cases)
    case (refresh_raised msg)
    have "job_field processed_count job_id db' = Some processed"
      using j1 Cons.prems(3) refresh_raised(3) by (simp add: job_field_def)
    with quiet_case refresh_raised show ?thesis by auto
  next
    case missing
    then show ?thesis using j1 by simp
  next
    case (cancelled job)
    have "job_field processed_count job_id db' = Some processed"
      using j1 Cons.prems(3) cancelled(4) by (simp add: job_field_def)
    with quiet_case cancelled show ?thesis by auto
  next
    case (chunk_raised job msg)
    from chunk_raise_row [OF Cons.prems(2) chunk_raised(3)] Cons.prems(3)
    have "job_field processed_count job_id db' = Some processed"
      by (auto simp add: job_field_def)
    with quiet_case chunk_raised show ?thesis by auto
  next
    case (progress_raised job msg db3)
    from chunk_job_row [OF Cons.prems(2) progress_raised(3) progress_raised(5)] obtain j3 j4 where
      j34: "jobs db3 job_id = Some j3" "processed_count j3 = processed_count j"
        "jobs db' job_id = Some j4" "processed_count j4 = processed + ?len"
      by blast
    have "\<forall>(c, d) \<in> set tr. job_field processed_count job_id d = Some processed"
      using process_chunk_Inr(3) [OF progress_raised(3)] j34(1,2) Cons.prems(3)
      by (auto simp add: job_field_def)
    then have t3: "committed processed_count job_id tr = replicate (length tr) (Some processed)"
      by (rule committed_same)
    have a: "committed processed_count job_id tr = map Some (replicate (length tr) processed)"
      using t3 by simp
    have b: "sorted (processed # replicate (length tr) processed)"
      by (simp add: sorted_replicate)
    have c: "last (processed # replicate (length tr) processed) = processed"
      by simp
    have d: "job_field processed_count job_id db' = Some (processed + ?len)"
      using j34(3,4) by (simp add: job_field_def)
    show ?thesis
      using a b c d sum_nonneg progress_raised(6)
      by (intro exI [of _ "replicate (length tr) processed"] exI [of _ "processed + ?len"])
         simp
  next
    case (continue job db3 tr3 db4 tr5)
    from chunk_job_row [OF Cons.prems(2) continue(3) continue(4)] obtain j3 j4 where
      j34: "jobs db3 job_id = Some j3" "processed_count j3 = processed_count j"
        "jobs db4 job_id = Some j4" "processed_count j4 = processed + ?len"
      by blast
    from Cons.IH [OF continue(5) j34(3) j34(4)] obtain ps5 q where
      ih: "committed processed_count job_id tr5 = map Some ps5"
        "sorted ((processed + ?len) # ps5)"
        "job_field processed_count job_id db' = Some q"
        "last ((processed + ?len) # ps5) \<le> q"
        "q \<le> processed + ?len + ?sum"
        "\<forall>p. r = Done p \<longrightarrow> p = processed + ?len + ?sum \<and> p = q"
      by blast
    have "\<forall>(c, d) \<in> set tr3. job_field processed_count job_id d = Some processed"
      using process_chunk_Inr(3) [OF continue(3)] j34(1,2) Cons.prems(3)
      by (auto simp add: job_field_def)
    then have t3: "committed processed_count job_id tr3 = replicate (length tr3) (Some processed)"
      by (rule committed_same)
    define ps where "ps = replicate (length tr3) processed @ (processed + ?len) # ps5"
    have a: "committed processed_count job_id tr = map Some ps"
      unfolding continue(6) ps_def using t3 ih(1) j34(3,4)
      by (simp add: job_field_def)
    have b: "sorted (processed # ps)"
      unfolding ps_def using ih(2)
      by (auto simp add: sorted_append)
    have c: "last (processed # ps) = last ((processed + ?len) # ps5)"
      unfolding ps_def by simp
    show ?thesis
      using a b c ih(3,4,5,6) by (intro exI [of _ ps] exI [of _ q]) (simp add: add.assoc)
  qed
qed

lemma py_range_Nil: "stop \<le> start \<Longrightarrow> py_range start stop step = []"
  by (simp add: py_range.simps)

lemma py_range_Cons:
  "0 < step \<Longrightarrow> start < stop \<Longrightarrow>
     py_range start stop step = start # py_range (start + step) stop step"
  by (subst py_range.simps) simp

lemma chunk_lengths_sum:
  "0 < step \<Longrightarrow> stop = length ids \<Longrightarrow>
     (\<Sum>k\<leftarrow>py_range start stop step. int (length (take step (drop k ids))))
       = int (stop - start)"
proof (induction start stop step rule: py_range.induct)
  case (1 start stop step)
  show ?case
  proof (cases "start < stop")
    case False
    then show ?thesis by (simp add: py_range_Nil)
  next
    case True
    with 1 have ih: "(\<Sum>k\<leftarrow>py_range (start + step) stop step. int (length (take step (drop k ids))))
                   = int (stop - (start + step))"
      by simp
    show ?thesis
      using True "1.prems" ih by (simp add: py_range_Cons min_def)
  qed
qed


lemma run_chunks_done:
  assumes "run_chunks E job_id ids bs offs processed db = (Done p, db', tr)"
  shows "p = processed + (\<Sum>i\<leftarrow>offs. int (length (take bs (drop i ids))))"
  using assms
proof (induction offs arbitrary: processed db tr)
  case Nil
  then show ?case by simp
next
  case (Cons k rest)
  from Cons.prems show ?case
  proof (cases rule: run_chunks_Cons_cases)
    case (refresh_raised msg)
    then show ?thesis by simp
  next
    case missing
    then show ?thesis by simp
  next
    case (cancelled job)
    then show ?thesis by simp
  next
    case (chunk_raised job msg)
    then show ?thesis by simp
  next
    case (progress_raised job msg db3)
    then show ?thesis by simp
  next
    case (continue job db3 tr3 db4 tr5)
    from Cons.IH [OF continue(5)] show ?thesis
      by (simp add: add.assoc)
  qed
qed

lemma env_step_undisturbed [simp]: "undisturbed E \<Longrightarrow> env_step E p job_id db = db"
  by (simp add: env_step_def undisturbed_def)

lemma undisturbed_quiet [simp]: "undisturbed quiet"
  by (simp add: undisturbed_def quiet_def)

lemma run_chunks_undisturbed:
  assumes "run_chunks E job_id ids bs offs processed db = (r, db', tr)"
    and "undisturbed E" and "jobs db job_id = Some j" and "status j \<noteq> CANCELLED"
  shows "\<exists>p. r = Done p"
  using assms
proof (induction offs arbitrary: processed db j r db' tr)
  case Nil
  then show ?case by auto
next
  case (Cons i rest)
  have nf: "chunk_failure E i = None"
    using Cons.prems(2) by (simp add: undisturbed_def)
  from Cons.prems(1) show ?case
  proof (cases rule: run_chunks_Cons_cases)
    case (refresh_raised msg)
    then show ?thesis using nf by simp
  next
    case missing
    then show ?thesis using Cons.prems by simp
  next
    case (cancelled job)
    then show ?thesis using Cons.prems by simp
  next
    case (chunk_raised job msg)
    then show ?thesis using nf process_chunk_Inl(3) by fastforce
  next
    case (progress_raised job msg db3)
    then show ?thesis using nf by simp
  next
    case (continue job db3 tr3 db4 tr5)
    have "jobs db3 job_id = Some j"
      using process_chunk_Inr(1) [OF continue(3)] Cons.prems(2,3) by simp
    then have "jobs db4 job_id
        = Some (j\<lparr>processed_count := processed + int (length (take bs (drop i ids)))\<rparr>)"
      using continue(4) by (simp add: update_job_row)
    from Cons.IH [OF continue(5) Cons.prems(2) this] Cons.prems(4) show ?thesis
      by simp
  qed
qed





lemma job_field_update_job:
  "job_field f job_id (update_job job_id g db) = map_option (\<lambda>j. f (g j)) (jobs db job_id)"
  by (simp add: job_field_def update_job_row option.map_comp comp_def)


lemma job_field_env_step_error [simp]:
  "job_field error_message job_id (env_step E p job_id db)
     = job_field error_message job_id db"
  by (auto simp add: job_field_def env_step_def cancel_batch_job_def split: option.splits)

lemma job_field_cancel_pc [simp]:
  "job_field processed_count job_id (snd (cancel_batch_job job_id db))
     = job_field processed_count job_id db"
  by (auto simp add: job_field_def cancel_batch_job_def split: option.splits)








section \<open>The run as a whole\<close>

lemma process_batch_job_cases:
  assumes "process_batch_job E job_id db = (out, db', tr)"
    and "jobs db job_id = Some job" and "status job \<noteq> CANCELLED"
  obtains
    (returned) i tr2 where "run_loop E job_id job db = (Returned i, db', tr2)"
        "out = CancelledAt i" "tr = (CommitStart, started E job_id db) # tr2"
  | (missing) i tr2 where "run_loop E job_id job db = (RowMissing i, db', tr2)"
        "out = Vanished i" "tr = (CommitStart, started E job_id db) # tr2"
  | (raised) i msg db2 tr2 where "run_loop E job_id job db = (Raised i msg, db2, tr2)"
        "out = FailedAt i msg"
        "db' = update_job job_id (\<lambda>j. j\<lparr>status := FAILED, error_message := Some msg\<rparr>) db2"
        "tr = (CommitStart, started E job_id db) # tr2 @ [(CommitFailed, db')]"
  | (finished) processed db2 tr2 db3 where
        "run_loop E job_id job db = (Done processed, db2, tr2)"
        "out = Completed"
        "db3 = update_job job_id (\<lambda>j. j\<lparr>processed_count := processed\<rparr>)
                 (env_step E AtFinal job_id db2)"
        "db' = update_job job_id (\<lambda>j. j\<lparr>status := COMPLETED\<rparr>)
                 (env_step E AtCompleted job_id db3)"
        "tr = (CommitStart, started E job_id db) # tr2 @ [(CommitFinal, db3), (CommitCompleted, db')]"
proof (cases "run_loop E job_id job db")
  case (fields r db2 tr2)
  then have run: "run_chunks E job_id (company_ids_json job)
       (if length (company_ids_json job) \<le> 100 then 1 else 5)
       (py_range 0 (length (company_ids_json job))
          (if length (company_ids_json job) \<le> 100 then 1 else 5)) 0
       (update_job job_id (\<lambda>j. j\<lparr>status := IN_PROGRESS\<rparr>) (env_step E AtStart job_id db))
     = (r, db2, tr2)"
    by (simp add: run_loop_def chunk_size_def offsets_def started_def)
  show ?thesis
  proof (cases r)
    case (Done p)
    with assms run fields show ?thesis
      by (intro finished [of p db2 tr2])
         (auto simp add: process_batch_job_def Let_def started_def)
  next
    case (Returned i)
    with assms run fields show ?thesis
      by (intro returned [of i tr2])
         (auto simp add: process_batch_job_def Let_def started_def)
  next
    case (Raised i msg)
    with assms run fields show ?thesis
      by (intro raised [of i msg db2 tr2])
         (auto simp add: process_batch_job_def Let_def started_def)
  next
    case (RowMissing i)
    with assms run fields show ?thesis
      by (intro missing [of i tr2])
         (auto simp add: process_batch_job_def Let_def started_def)
  qed
qed

lemma started_job:
  assumes "jobs db job_id = Some job"
  shows "\<exists>j1. jobs (started E job_id db) job_id = Some j1 \<and> job_frame job j1
           \<and> processed_count j1 = processed_count job \<and> status j1 = IN_PROGRESS"
proof -
  from env_step_job [OF assms, of E AtStart] obtain j0 where
    "jobs (env_step E AtStart job_id db) job_id = Some j0" "job_frame job j0"
    "processed_count j0 = processed_count job" by blast
  then show ?thesis
    by (simp add: started_def update_job_row job_frame_def)
qed

lemma started_associations [simp]:
  "associations (started E job_id db) = associations db"
  by (simp add: started_def)

lemma offsets_sum:
  "(\<Sum>i\<leftarrow>offsets job. int (length (take (chunk_size job) (drop i (company_ids_json job)))))
     = int (length (company_ids_json job))"
  unfolding offsets_def
  by (subst chunk_lengths_sum) (simp_all add: chunk_size_def)


lemma sorted_le_last:
  fixes xs :: "int list"
  shows "sorted xs \<Longrightarrow> x \<in> set xs \<Longrightarrow> x \<le> last xs"
  by (induction xs) (auto split: if_splits)

lemma last_snoc2: "last (x # xs @ [y, z]) = z"
  by simp

lemma completed_run:
  assumes "jobs db job_id = Some job"
    and "total_count job = int (length (company_ids_json job))"
    and "process_batch_job E job_id db = (out, db', tr)"
  shows "(out = Completed \<longrightarrow>
            (\<exists>job'. jobs db' job_id = Some job' \<and> status job' = COMPLETED
                \<and> processed_count job' = total_count job'
                \<and> total_count job' = total_count job)
            \<and> tr \<noteq> [] \<and> last tr = (CommitCompleted, db'))
         \<and> (undisturbed E \<and> status job \<noteq> CANCELLED \<longrightarrow> out = Completed)"
proof (cases "status job = CANCELLED")
  case True
  with assms have "out = CancelledBeforeStart"
    by (simp add: process_batch_job_def)
  with True show ?thesis by simp
next
  case False
  let ?n = "int (length (company_ids_json job))"
  from started_job [OF assms(1), of E] obtain j1 where
    j1: "jobs (started E job_id db) job_id = Some j1" "job_frame job j1"
      "status j1 = IN_PROGRESS"
    by auto
  from assms(3,1) False show ?thesis
  proof (cases rule: process_batch_job_cases)
    case (returned i tr2)
    then have run: "run_chunks E job_id (company_ids_json job) (chunk_size job) (offsets job) 0
                     (started E job_id db) = (Returned i, db', tr2)"
      by (simp add: run_loop_def)
    have "\<not> undisturbed E"
      using run_chunks_undisturbed [OF run _ j1(1)] j1(3) by auto
    with returned show ?thesis by simp
  next
    case (missing i tr2)
    then have run: "run_chunks E job_id (company_ids_json job) (chunk_size job) (offsets job) 0
                     (started E job_id db) = (RowMissing i, db', tr2)"
      by (simp add: run_loop_def)
    from run_chunks_job_persists [OF run j1(1)] show ?thesis by simp
  next
    case (raised i msg db2 tr2)
    then have run: "run_chunks E job_id (company_ids_json job) (chunk_size job) (offsets job) 0
                     (started E job_id db) = (Raised i msg, db2, tr2)"
      by (simp add: run_loop_def)
    have "\<not> undisturbed E"
      using run_chunks_undisturbed [OF run _ j1(1)] j1(3) by auto
    with raised show ?thesis by simp
  next
    case (finished processed db2 tr2 db3)
    then have run: "run_chunks E job_id (company_ids_json job) (chunk_size job) (offsets job) 0
                     (started E job_id db) = (Done processed, db2, tr2)"
      by (simp add: run_loop_def)
    from run_chunks_job_persists [OF run j1(1)] obtain j2 where
      j2: "jobs db2 job_id = Some j2" "job_frame j1 j2" by blast
    have p: "processed = ?n"
      using run_chunks_done [OF run, unfolded offsets_sum] by simp
    from env_step_job [OF j2(1), of E AtFinal] obtain j2' where
      j2': "jobs (env_step E AtFinal job_id db2) job_id = Some j2'" "job_frame j2 j2'"
      by blast
    have j3: "jobs db3 job_id = Some (j2'\<lparr>processed_count := ?n\<rparr>)"
      unfolding finished(3) p using j2'(1) by (simp add: update_job_row)
    from env_step_job [OF j3, of E AtCompleted] obtain j3' where
      j3': "jobs (env_step E AtCompleted job_id db3) job_id = Some j3'"
        "job_frame (j2'\<lparr>processed_count := ?n\<rparr>) j3'" "processed_count j3' = ?n"
      by auto
    have j4: "jobs db' job_id = Some (j3'\<lparr>status := COMPLETED\<rparr>)"
      unfolding finished(4) using j3'(1) by (simp add: update_job_row)
    have tc: "total_count j3' = total_count job"
      using j1(2) j2(2) j2'(2) j3'(2) by (simp add: job_frame_def)
    have l: "last tr = (CommitCompleted, db')"
      unfolding finished(5) by (rule last_snoc2)
    have ne: "tr \<noteq> []"
      unfolding finished(5) by simp
    show ?thesis
      using finished(2) j4 j3'(3) tc assms(2) l ne by simp
  qed
qed

lemma existing_association_iff:
  "existing_association db cid coll \<noteq> None \<longleftrightarrow>
     (\<exists>a \<in> set (associations db). company_id a = cid \<and> collection_id a = coll)"
  by (auto simp add: existing_association_def find_None_iff)

lemma associations_to_add_present:
  assumes "\<forall>cid \<in> set batch_ids.
             \<exists>a \<in> set (associations db). company_id a = cid \<and> collection_id a = target"
  shows "associations_to_add db target batch_ids = []"
  using assms
  by (auto simp add: associations_to_add_def existing_association_def find_None_iff)

lemma process_chunk_add_present:
  assumes "job_type job = ADD"
    and "\<forall>cid \<in> set batch_ids.
           \<exists>a \<in> set (associations db).
             company_id a = cid \<and> collection_id a = target_collection_id job"
  shows "process_chunk failure job i batch_ids db = Inr (db, [])
         \<or> (\<exists>msg. process_chunk failure job i batch_ids db = Inl (msg, db))"
  using assms
  by (simp add: process_chunk_def associations_to_add_present split: option.splits)

lemma run_chunks_add_present:
  assumes "run_chunks E job_id ids bs offs processed db = (r, db', tr)"
    and "jobs db job_id = Some j" and "job_type j = ADD"
    and "\<forall>cid \<in> set ids.
           \<exists>a \<in> set (associations db).
             company_id a = cid \<and> collection_id a = target_collection_id j"
  shows "associations db' = associations db
         \<and> (\<forall>(c, d) \<in> set tr. associations d = associations db)"
  using assms
proof (induction offs arbitrary: processed db j r db' tr)
  case Nil
  then show ?case by auto
next
  case (Cons i rest)
  from env_step_job [OF Cons.prems(2), of E "AtCheck i"] obtain j1 where
    j1: "jobs (env_step E (AtCheck i) job_id db) job_id = Some j1" "job_frame j j1"
    by blast
  from Cons.prems(1) show ?case
  proof (cases rule: run_chunks_Cons_cases)
    case (refresh_raised msg)
    then show ?thesis by simp
  next
    case missing
    then show ?thesis by simp
  next
    case (cancelled job)
    then show ?thesis by simp
  next
    case (chunk_raised job msg)
    let ?db2 = "env_step E (During i) job_id (env_step E (AtCheck i) job_id db)"
    have job: "job = j1" using chunk_raised(1) j1(1) by simp
    have jt: "job_type job = ADD" "target_collection_id job = target_collection_id j"
      using j1(2) Cons.prems(3) job by (simp_all add: job_frame_def)
    have "\<forall>cid \<in> set (take bs (drop i ids)).
            \<exists>a \<in> set (associations ?db2).
              company_id a = cid \<and> collection_id a = target_collection_id job"
      using Cons.prems(4) jt(2)
      by (auto dest!: in_set_takeD in_set_dropD)
    from process_chunk_add_present [OF jt(1) this, of "chunk_failure E i" i] chunk_raised(3)
    have "db' = ?db2" by auto
    with chunk_raised(5) show ?thesis by simp
  next
    case (progress_raised job msg db3)
    let ?db2 = "env_step E (During i) job_id (env_step E (AtCheck i) job_id db)"
    have job: "job = j1" using progress_raised(1) j1(1) by simp
    have jt: "job_type job = ADD" "target_collection_id job = target_collection_id j"
      using j1(2) Cons.prems(3) job by (simp_all add: job_frame_def)
    have "\<forall>cid \<in> set (take bs (drop i ids)).
            \<exists>a \<in> set (associations ?db2).
              company_id a = cid \<and> collection_id a = target_collection_id job"
      using Cons.prems(4) jt(2)
      by (auto dest!: in_set_takeD in_set_dropD)
    from process_chunk_add_present [OF jt(1) this, of "chunk_failure E i" i] progress_raised(3)
    have c3: "db3 = ?db2" "tr = []" by auto
    show ?thesis
      unfolding progress_raised(5) c3 by simp
  next
    case (continue job db3 tr3 db4 tr5)
    let ?db2 = "env_step E (During i) job_id (env_step E (AtCheck i) job_id db)"
    have job: "job = j1" using continue(1) j1(1) by simp
    have jt: "job_type job = ADD" "target_collection_id job = target_collection_id j"
      using j1(2) Cons.prems(3) job by (simp_all add: job_frame_def)
    have "\<forall>cid \<in> set (take bs (drop i ids)).
            \<exists>a \<in> set (associations ?db2).
              company_id a = cid \<and> collection_id a = target_collection_id job"
      using Cons.prems(4) jt(2)
      by (auto dest!: in_set_takeD in_set_dropD)
    from process_chunk_add_present [OF jt(1) this, of "chunk_failure E i" i] continue(3)
    have c3: "db3 = ?db2" "tr3 = []" by auto
    have a4: "associations db4 = associations db"
      unfolding continue(4) c3 by simp
    from chunk_job_row [OF Cons.prems(2) continue(3) continue(4)] obtain j4 where
      j4: "jobs db4 job_id = Some j4" "job_frame j j4" by blast
    have jt4: "job_type j4 = ADD" "target_collection_id j4 = target_collection_id j"
      using j4(2) Cons.prems(3) by (simp_all add: job_frame_def)
    have pres: "\<forall>cid \<in> set ids.
           \<exists>a \<in> set (associations db4).
             company_id a = cid \<and> collection_id a = target_collection_id j4"
      using Cons.prems(4) a4 jt4(2) by simp
    from Cons.IH [OF continue(5) j4(1) jt4(1) pres] a4 show ?thesis
      unfolding continue(6) c3 by auto
  qed
qed

lemma progress_sequence_Nil [simp]: "progress_sequence job_id [] = []"
  by (simp add: progress_sequence_def)

lemma progress_sequence_append [simp]:
  "progress_sequence job_id (xs @ ys) = progress_sequence job_id xs @ progress_sequence job_id ys"
  by (simp add: progress_sequence_def)

lemma progress_sequence_Cons [simp]:
  "progress_sequence job_id ((c, d) # ys) =
     (if is_progress c then [job_field processed_count job_id d] else [])
       @ progress_sequence job_id ys"
  by (simp add: progress_sequence_def)

lemma progress_sequence_none:
  assumes "\<forall>(c, d) \<in> set tr. \<not> is_progress c"
  shows "progress_sequence job_id tr = []"
  using assms by (induction tr) auto

lemma run_chunks_progress_sequence:
  assumes "run_chunks E job_id ids step (py_range start stop step)
             (int (min start stop)) db = (r, db', tr)"
    and "stop = length ids" and "0 < step" and "jobs db job_id = Some j"
  shows "prefix (progress_sequence job_id tr)
           (map (\<lambda>i. Some (int (min (i + step) stop))) (py_range start stop step))
         \<and> ((\<exists>p. r = Done p) \<longrightarrow>
               progress_sequence job_id tr
                 = map (\<lambda>i. Some (int (min (i + step) stop))) (py_range start stop step))"
  using assms
proof (induction start stop step arbitrary: db j r db' tr rule: py_range.induct)
  case (1 start stop step)
  show ?case
  proof (cases "start < stop")
    case False
    then have "py_range start stop step = []"
      by (simp add: py_range_Nil)
    with "1.prems"(1) show ?thesis by auto
  next
    case True
    then have eq: "py_range start stop step = start # py_range (start + step) stop step"
      using "1.prems"(3) by (simp add: py_range_Cons)
    have m: "min start stop = start" using True by simp
    have len: "int start + int (length (take step (drop start ids)))
                 = int (min (start + step) stop)"
      using True "1.prems"(2) by (auto simp add: min_def)
    from "1.prems"(1) have run: "run_chunks E job_id ids step
        (start # py_range (start + step) stop step) (int start) db = (r, db', tr)"
      unfolding eq m .
    from run show ?thesis
    proof (cases rule: run_chunks_Cons_cases)
      case (refresh_raised msg)
      then show ?thesis by simp
    next
      case missing
      then show ?thesis by simp
    next
      case (cancelled job)
      then show ?thesis by simp
    next
      case (chunk_raised job msg)
      then show ?thesis by simp
    next
      case (progress_raised job msg db3)
      have "progress_sequence job_id tr = []"
        using process_chunk_Inr(3) [OF progress_raised(3)]
        by (intro progress_sequence_none) auto
      with progress_raised(6) show ?thesis by simp
    next
      case (continue job db3 tr3 db4 tr5)
      from chunk_job_row [OF "1.prems"(4) continue(3) continue(4)] obtain j4 where
        j4: "jobs db4 job_id = Some j4"
          "processed_count j4 = int start + int (length (take step (drop start ids)))"
        by blast
      have p4: "job_field processed_count job_id db4 = Some (int (min (start + step) stop))"
        using j4 len by (simp add: job_field_def)
      have t3: "progress_sequence job_id tr3 = []"
        using process_chunk_Inr(3) [OF continue(3)]
        by (intro progress_sequence_none) auto
      have c: "\<not> (step = 0 \<or> stop \<le> start)"
        using True "1.prems"(3) by simp
      have run': "run_chunks E job_id ids step (py_range (start + step) stop step)
          (int (min (start + step) stop)) db4 = (r, db', tr5)"
        using continue(5) len by simp
      from "1.IH" [OF c run' "1.prems"(2) "1.prems"(3) j4(1)] have
        ih: "prefix (progress_sequence job_id tr5)
               (map (\<lambda>i. Some (int (min (i + step) stop))) (py_range (start + step) stop step))"
            "(\<exists>p. r = Done p) \<longrightarrow>
               progress_sequence job_id tr5
                 = map (\<lambda>i. Some (int (min (i + step) stop))) (py_range (start + step) stop step)"
        by blast+
      have ps: "progress_sequence job_id tr
                  = Some (int (min (start + step) stop)) # progress_sequence job_id tr5"
        unfolding continue(6) using t3 p4 by simp
      show ?thesis
        unfolding ps eq using ih by simp
    qed
  qed
qed

lemma seq_50:
  "map (\<lambda>i. Some (int (min (i + 1) 50))) (py_range 0 50 1) = map (\<lambda>k. Some (int k)) [1..<51]"
  by code_simp

lemma seq_250:
  "map (\<lambda>i. Some (int (min (i + 5) 250))) (py_range 0 250 5)
     = map (\<lambda>k. Some (5 * int k)) [1..<51]"
  by code_simp

lemma progress_sequence_run:
  assumes "jobs db job_id = Some job" and "status job \<noteq> CANCELLED"
    and "process_batch_job E job_id db = (out, db', tr)"
  shows "prefix (progress_sequence job_id tr)
           (map (\<lambda>i. Some (int (min (i + chunk_size job) (length (company_ids_json job)))))
              (offsets job))
         \<and> (out = Completed \<longrightarrow>
               progress_sequence job_id tr
                 = map (\<lambda>i. Some (int (min (i + chunk_size job) (length (company_ids_json job)))))
                     (offsets job))"
proof -
  let ?n = "length (company_ids_json job)"
  let ?full = "map (\<lambda>i. Some (int (min (i + chunk_size job) ?n))) (offsets job)"
  from started_job [OF assms(1), of E] obtain j1 where
    j1: "jobs (started E job_id db) job_id = Some j1" by auto
  have pos: "0 < chunk_size job" by (simp add: chunk_size_def)
  have loop: "\<And>r db2 tr2. run_loop E job_id job db = (r, db2, tr2) \<Longrightarrow>
      prefix (progress_sequence job_id tr2) ?full
      \<and> ((\<exists>p. r = Done p) \<longrightarrow> progress_sequence job_id tr2 = ?full)"
    unfolding run_loop_def offsets_def
    using run_chunks_progress_sequence [of E job_id "company_ids_json job" "chunk_size job" 0
        ?n "started E job_id db", OF _ refl pos j1]
    by simp
  from assms(3,1,2) show ?thesis
  proof (cases rule: process_batch_job_cases)
    case (returned i tr2)
    from loop [OF returned(1)] show ?thesis
      unfolding returned(3) returned(2) by simp
  next
    case (missing i tr2)
    from loop [OF missing(1)] show ?thesis
      unfolding missing(3) missing(2) by simp
  next
    case (raised i msg db2 tr2)
    from loop [OF raised(1)] show ?thesis
      unfolding raised(4) raised(2) by simp
  next
    case (finished processed db2 tr2 db3)
    from loop [OF finished(1)] show ?thesis
      unfolding finished(5) finished(2) by simp
  qed
qed

lemma ex_delete_db_job: "jobs (ex_delete_db n) 7 = Some (ex_delete_job n)"
  by (simp add: ex_delete_db_def)

lemma ex_delete_job_fields:
  "total_count (ex_delete_job n) = int n" "length (company_ids_json (ex_delete_job n)) = n"
  "status (ex_delete_job n) = PENDING"
  by (simp_all add: ex_delete_job_def new_BatchJob_def)

section \<open>Jobs as the submit routes store them\<close>

lemma created_add_job_row:
  assumes "create_batch_add_job request background_tasks new_id db = (Inr resp, bt', db')"
  shows "\<exists>job. jobs db' new_id = Some job \<and> status job = PENDING \<and> processed_count job = 0
           \<and> total_count job = int (length (company_ids_json job))
           \<and> company_ids_json job = add_company_ids request \<and> job_type job = ADD
           \<and> target_collection_id job = Some (add_target_collection_id request)"
  using assms
  by (auto simp add: create_batch_add_job_def Let_def new_BatchJob_def split: if_splits)

lemma created_delete_job_row:
  assumes "create_batch_delete_job request background_tasks new_id db = (Inr resp, bt', db')"
  shows "\<exists>job. jobs db' new_id = Some job \<and> status job = PENDING \<and> processed_count job = 0
           \<and> total_count job = int (length (company_ids_json job))
           \<and> company_ids_json job = del_company_ids request \<and> job_type job = DELETE
           \<and> source_collection_id job = del_collection_id request"
  using assms
  by (auto simp add: create_batch_delete_job_def Let_def new_BatchJob_def split: if_splits)

lemma ex_request_created:
  "create_batch_add_job ex_request [] 7 ex_store
     = (Inr (response_of 7 (ex_job PENDING)), [7], ex_db PENDING)"
  by (simp add: create_batch_add_job_def ex_request_def ex_store_def ex_db_def ex_job_def
      new_BatchJob_def Let_def)

lemma ex_db_job: "jobs (ex_db st) 7 = Some (ex_job st)"
  by (simp add: ex_db_def)

lemma ex_job_fields:
  "processed_count (ex_job st) = 0" "total_count (ex_job st) = 3"
  "company_ids_json (ex_job st) = [1, 2, 3]" "status (ex_job st) = st"
  "job_type (ex_job st) = ADD" "target_collection_id (ex_job st) = Some 2"
  "error_message (ex_job st) = None"
  by (simp_all add: ex_job_def new_BatchJob_def)

section \<open>Progress accounting\<close>

text \<open>
  C2.  Take a job row as the submit routes store it (processed count 0, total count
  the length of the identifier list; a cancellation request in between changes
  neither) and any environment.  In the store the executor picks the job up from and
  in every state the executor commits afterwards, the job row is present, and its
  successive processed counts start at 0, never decrease, and lie between 0 and the
  total count.
\<close>

theorem process_batch_job_progress_bounds:
  assumes "jobs db job_id = Some job"
    and "processed_count job = 0"
    and "total_count job = int (length (company_ids_json job))"
    and "process_batch_job E job_id db = (out, db', tr)"
  shows "\<exists>ps. job_field processed_count job_id db # committed processed_count job_id tr
                = map Some ps
           \<and> hd ps = 0 \<and> sorted ps
           \<and> (\<forall>p \<in> set ps. 0 \<le> p \<and> p \<le> total_count job)"
proof (cases "status job = CANCELLED")
  case True
  with assms have "tr = []"
    by (simp add: process_batch_job_def)
  with assms show ?thesis
    by (intro exI [of _ "[0]"]) (simp add: job_field_def)
next
  case False
  let ?n = "int (length (company_ids_json job))"
  from started_job [OF assms(1), of E] obtain j1 where
    j1: "jobs (started E job_id db) job_id = Some j1" "processed_count j1 = 0"
    using assms(2) by auto
  have s0: "job_field processed_count job_id (started E job_id db) = Some 0"
    using j1 by (simp add: job_field_def)
  have d0: "job_field processed_count job_id db = Some 0"
    using assms(1,2) by (simp add: job_field_def)
  obtain r db2 tr2 where run: "run_loop E job_id job db = (r, db2, tr2)"
    by (cases "run_loop E job_id job db")
  then have run': "run_chunks E job_id (company_ids_json job) (chunk_size job) (offsets job) 0
                     (started E job_id db) = (r, db2, tr2)"
    by (simp add: run_loop_def)
  from run_chunks_progress [OF run' j1, unfolded offsets_sum] obtain ps q where
    ps0: "committed processed_count job_id tr2 = map Some ps"
      "sorted (0 # ps)"
      "job_field processed_count job_id db2 = Some q"
      "last (0 # ps) \<le> q"
      "q \<le> 0 + ?n"
      "\<forall>p. r = Done p \<longrightarrow> p = 0 + ?n \<and> p = q"
    by blast
  have ps: "committed processed_count job_id tr2 = map Some ps"
      "sorted (0 # ps)"
      "job_field processed_count job_id db2 = Some q"
      "last (0 # ps) \<le> q"
      "q \<le> ?n"
      "\<forall>p. r = Done p \<longrightarrow> p = ?n \<and> p = q"
    using ps0 by simp_all
  from run_chunks_job_persists [OF run' j1(1)] obtain j2 where
    j2: "jobs db2 job_id = Some j2" by blast
  have bound: "\<forall>p \<in> set (0 # ps). 0 \<le> p \<and> p \<le> q"
    using ps(2,4) sorted_le_last [OF ps(2)] by fastforce
  have boundn: "\<forall>p \<in> set (0 # ps). 0 \<le> p \<and> p \<le> ?n"
    using bound ps(5) by fastforce
  have q0: "0 \<le> q"
    using bound by simp
  from assms(4,1) False show ?thesis
  proof (cases rule: process_batch_job_cases)
    case (returned i tr2')
    with run have "tr = (CommitStart, started E job_id db) # tr2" by simp
    then show ?thesis
      using ps boundn s0 d0 assms(3)
      by (intro exI [of _ "0 # 0 # ps"]) simp
  next
    case (missing i tr2')
    with run have "tr = (CommitStart, started E job_id db) # tr2" by simp
    then show ?thesis
      using ps boundn s0 d0 assms(3)
      by (intro exI [of _ "0 # 0 # ps"]) simp
  next
    case (raised i msg db2' tr2')
    with run have eq: "tr = (CommitStart, started E job_id db) # tr2 @ [(CommitFailed, db')]"
      "db' = update_job job_id (\<lambda>j. j\<lparr>status := FAILED, error_message := Some msg\<rparr>) db2"
      by simp_all
    have "processed_count j2 = q"
      using ps(3) j2 by (simp add: job_field_def)
    then have "job_field processed_count job_id db' = Some q"
      unfolding eq(2) job_field_update_job using j2 by simp
    then show ?thesis
      using ps bound boundn s0 d0 assms(3) q0 unfolding eq(1)
      by (intro exI [of _ "0 # 0 # ps @ [q]"])
         (auto simp add: sorted_append)
  next
    case (finished processed db2' tr2' db3)
    with run have eq:
      "tr = (CommitStart, started E job_id db) # tr2 @ [(CommitFinal, db3), (CommitCompleted, db')]"
      "db3 = update_job job_id (\<lambda>j. j\<lparr>processed_count := processed\<rparr>)
               (env_step E AtFinal job_id db2)"
      "db' = update_job job_id (\<lambda>j. j\<lparr>status := COMPLETED\<rparr>)
               (env_step E AtCompleted job_id db3)"
      "r = Done processed"
      by simp_all
    from ps(6) eq(4) have p: "processed = ?n" "?n = q" by auto
    from env_step_job [OF j2, of E AtFinal] obtain j2' where
      "jobs (env_step E AtFinal job_id db2) job_id = Some j2'" by blast
    then have f3: "job_field processed_count job_id db3 = Some ?n"
      unfolding eq(2) p(1) by (simp add: job_field_update_job)
    then obtain j3 where j3: "jobs db3 job_id = Some j3" "processed_count j3 = ?n"
      by (auto simp add: job_field_def)
    from env_step_job [OF j3(1), of E AtCompleted] obtain j3' where
      "jobs (env_step E AtCompleted job_id db3) job_id = Some j3'" "processed_count j3' = ?n"
      using j3(2) by auto
    then have f4: "job_field processed_count job_id db' = Some ?n"
      unfolding eq(3) by (simp add: job_field_update_job)
    have le: "\<forall>x \<in> set ps. x \<le> ?n"
      using boundn by simp
    show ?thesis
      using ps boundn s0 d0 assms(3) f3 f4 le unfolding eq(1)
      by (intro exI [of _ "0 # 0 # ps @ [?n, ?n]"])
         (auto simp add: sorted_append)
  qed
qed

theorem process_batch_job_progress_bounds_witness:
  "\<exists>ps. job_field processed_count 7 (ex_db PENDING)
            # committed processed_count 7
                (snd (snd (process_batch_job ex_env_cancel 7 (ex_db PENDING))))
          = map Some ps
     \<and> hd ps = 0 \<and> sorted ps \<and> (\<forall>p \<in> set ps. 0 \<le> p \<and> p \<le> total_count (ex_job PENDING))"
proof -
  have a: "jobs (ex_db PENDING) 7 = Some (ex_job PENDING)"
    by (rule ex_db_job)
  have b: "processed_count (ex_job PENDING) = 0"
    by (simp add: ex_job_fields)
  have c: "total_count (ex_job PENDING) = int (length (company_ids_json (ex_job PENDING)))"
    by (simp add: ex_job_fields)
  have d: "process_batch_job ex_env_cancel 7 (ex_db PENDING)
      = (fst (process_batch_job ex_env_cancel 7 (ex_db PENDING)),
         fst (snd (process_batch_job ex_env_cancel 7 (ex_db PENDING))),
         snd (snd (process_batch_job ex_env_cancel 7 (ex_db PENDING))))"
    by simp
  show ?thesis
    by (rule process_batch_job_progress_bounds [OF a b c d])
qed

section \<open>Chunk sizing\<close>

text \<open>
  C3.  For a job with total count \<open>n\<close> (the length of its identifier list, as the
  submit routes store it) the executor works with chunk size 1 when \<open>n \<le> 100\<close> and
  5 otherwise: the processed counts it commits at line 128 are, in order, the values
  \<open>min (i + chunk) n\<close> for the offsets \<open>i = 0, chunk, 2 chunk, ...\<close> below \<open>n\<close>; a run
  that is cancelled or fails commits an initial part of that sequence, a run that
  completes commits all of it.  In particular a completed run commits
  1, 2, ..., 50 for \<open>n = 50\<close> and 5, 10, ..., 250 for \<open>n = 250\<close>.
\<close>

theorem process_batch_job_chunking:
  assumes "jobs db job_id = Some job"
    and "total_count job = int (length (company_ids_json job))"
    and "process_batch_job E job_id db = (out, db', tr)"
  shows "(let n = nat (total_count job); chunk = (if total_count job \<le> 100 then 1 else 5);
              full = map (\<lambda>i. Some (int (min (i + chunk) n))) (py_range 0 n chunk)
          in prefix (progress_sequence job_id tr) full
             \<and> (out = Completed \<longrightarrow> progress_sequence job_id tr = full))
         \<and> (out = Completed \<and> total_count job = 50 \<longrightarrow>
               progress_sequence job_id tr = map (\<lambda>k. Some (int k)) [1..<51])
         \<and> (out = Completed \<and> total_count job = 250 \<longrightarrow>
               progress_sequence job_id tr = map (\<lambda>k. Some (5 * int k)) [1..<51])"
proof (cases "status job = CANCELLED")
  case True
  with assms have "out = CancelledBeforeStart" "tr = []"
    by (simp_all add: process_batch_job_def)
  then show ?thesis by (simp add: Let_def)
next
  case False
  let ?n = "length (company_ids_json job)"
  have n: "nat (total_count job) = ?n"
    using assms(2) by simp
  have c: "(if total_count job \<le> 100 then 1 else 5) = chunk_size job"
    using assms(2) by (simp add: chunk_size_def)
  from progress_sequence_run [OF assms(1) False assms(3)] have
    g: "prefix (progress_sequence job_id tr)
          (map (\<lambda>i. Some (int (min (i + chunk_size job) ?n))) (py_range 0 ?n (chunk_size job)))"
       "out = Completed \<longrightarrow> progress_sequence job_id tr
          = map (\<lambda>i. Some (int (min (i + chunk_size job) ?n))) (py_range 0 ?n (chunk_size job))"
    unfolding offsets_def by blast+
  have a50: "out = Completed \<and> total_count job = 50 \<longrightarrow>
               progress_sequence job_id tr = map (\<lambda>k. Some (int k)) [1..<51]"
  proof (intro impI, elim conjE)
    assume o: "out = Completed" and t: "total_count job = 50"
    from t assms(2) have l: "?n = 50" by simp
    then have "chunk_size job = 1" by (simp add: chunk_size_def)
    with g(2) o l show "progress_sequence job_id tr = map (\<lambda>k. Some (int k)) [1..<51]"
      using seq_50 by simp
  qed
  have a250: "out = Completed \<and> total_count job = 250 \<longrightarrow>
               progress_sequence job_id tr = map (\<lambda>k. Some (5 * int k)) [1..<51]"
  proof (intro impI, elim conjE)
    assume o: "out = Completed" and t: "total_count job = 250"
    from t assms(2) have l: "?n = 250" by simp
    then have "chunk_size job = 5" by (simp add: chunk_size_def)
    with g(2) o l show "progress_sequence job_id tr = map (\<lambda>k. Some (5 * int k)) [1..<51]"
      using seq_250 by simp
  qed
  show ?thesis
    unfolding Let_def n c using g a50 a250 by blast
qed

theorem process_batch_job_chunking_witness:
  "fst (process_batch_job quiet 7 (ex_delete_db 50)) = Completed
   \<and> total_count (ex_delete_job 50) = 50
   \<and> progress_sequence 7 (snd (snd (process_batch_job quiet 7 (ex_delete_db 50))))
       = map (\<lambda>k. Some (int k)) [1..<51]
   \<and> fst (process_batch_job quiet 7 (ex_delete_db 250)) = Completed
   \<and> total_count (ex_delete_job 250) = 250
   \<and> progress_sequence 7 (snd (snd (process_batch_job quiet 7 (ex_delete_db 250))))
       = map (\<lambda>k. Some (5 * int k)) [1..<51]"
proof -
  have b: "\<And>n. total_count (ex_delete_job n) = int (length (company_ids_json (ex_delete_job n)))"
    by (simp add: ex_delete_job_fields)
  have c: "\<And>n. process_batch_job quiet 7 (ex_delete_db n)
      = (fst (process_batch_job quiet 7 (ex_delete_db n)),
         fst (snd (process_batch_job quiet 7 (ex_delete_db n))),
         snd (snd (process_batch_job quiet 7 (ex_delete_db n))))"
    by simp
  have d: "\<And>n. fst (process_batch_job quiet 7 (ex_delete_db n)) = Completed"
    using completed_run [OF ex_delete_db_job b c] by (simp add: ex_delete_job_fields)
  have t: "total_count (ex_delete_job 50) = 50" "total_count (ex_delete_job 250) = 250"
    by (simp_all add: ex_delete_job_fields)
  from process_batch_job_chunking [OF ex_delete_db_job [of 50] b [of 50] c [of 50]]
    process_batch_job_chunking [OF ex_delete_db_job [of 250] b [of 250] c [of 250]] d t
  show ?thesis by blast
qed

section \<open>Normal completion\<close>

text \<open>
  C4.  When the executor runs every chunk of a job (whose total count is the
  length of its identifier list, as the submit routes store it) without returning
  on an observed cancellation and without a chunk raising, the last state it
  commits, which is the final store, shows the job with status COMPLETED and with
  processed count equal to total count.  Such runs exist: in an environment that
  requests no cancellation and makes no chunk raise, every job that is not
  cancelled at pickup is run to completion.
\<close>

theorem process_batch_job_completed:
  assumes "jobs db job_id = Some job"
    and "total_count job = int (length (company_ids_json job))"
    and "process_batch_job E job_id db = (out, db', tr)"
  shows "(out = Completed \<longrightarrow>
            (\<exists>job'. jobs db' job_id = Some job' \<and> status job' = COMPLETED
                \<and> processed_count job' = total_count job'
                \<and> total_count job' = total_count job)
            \<and> tr \<noteq> [] \<and> last tr = (CommitCompleted, db'))
         \<and> (undisturbed E \<and> status job \<noteq> CANCELLED \<longrightarrow> out = Completed)"
  using assms by (rule completed_run)

theorem process_batch_job_completed_witness:
  "fst (process_batch_job quiet 7 (ex_db PENDING)) = Completed
   \<and> (\<exists>job'. jobs (fst (snd (process_batch_job quiet 7 (ex_db PENDING)))) 7 = Some job'
          \<and> status job' = COMPLETED \<and> processed_count job' = total_count job'
          \<and> total_count job' = total_count (ex_job PENDING))
   \<and> snd (snd (process_batch_job quiet 7 (ex_db PENDING))) \<noteq> []
   \<and> last (snd (snd (process_batch_job quiet 7 (ex_db PENDING))))
        = (CommitCompleted, fst (snd (process_batch_job quiet 7 (ex_db PENDING))))"
proof -
  have a: "jobs (ex_db PENDING) 7 = Some (ex_job PENDING)"
    by (rule ex_db_job)
  have b: "total_count (ex_job PENDING) = int (length (company_ids_json (ex_job PENDING)))"
    by (simp add: ex_job_fields)
  have c: "process_batch_job quiet 7 (ex_db PENDING)
      = (fst (process_batch_job quiet 7 (ex_db PENDING)),
         fst (snd (process_batch_job quiet 7 (ex_db PENDING))),
         snd (snd (process_batch_job quiet 7 (ex_db PENDING))))"
    by simp
  have d: "undisturbed quiet \<and> status (ex_job PENDING) \<noteq> CANCELLED"
    by (simp add: ex_job_fields)
  from process_batch_job_completed [OF a b c] d show ?thesis
    by blast
qed

section \<open>Cancellation observed at a chunk boundary\<close>



section \<open>Failure of a chunk\<close>




section \<open>An ADD job over companies that are all in the target collection\<close>

text \<open>
  C9.  Let an ADD job be such that every company of its identifier list already has
  an association row with the job's target collection.  Then no run of the executor
  changes the association rows: they are the same list, row for row, in every
  committed state and in the final store, so nothing is inserted and nothing is
  removed.  When nobody cancels and no chunk raises, the job (not cancelled at
  pickup, stored with total count the length of its list) ends with status COMPLETED
  and processed count equal to total count.
\<close>

theorem add_job_over_present_ids:
  assumes "jobs db job_id = Some job" and "job_type job = ADD"
    and "total_count job = int (length (company_ids_json job))"
    and "\<forall>cid \<in> set (company_ids_json job).
           \<exists>a \<in> set (associations db).
             company_id a = cid \<and> collection_id a = target_collection_id job"
    and "process_batch_job E job_id db = (out, db', tr)"
  shows "associations db' = associations db
         \<and> (\<forall>(c, d) \<in> set tr. associations d = associations db)
         \<and> (undisturbed E \<and> status job \<noteq> CANCELLED \<longrightarrow>
               out = Completed
               \<and> (\<exists>job'. jobs db' job_id = Some job' \<and> status job' = COMPLETED
                     \<and> processed_count job' = total_count job'
                     \<and> total_count job' = total_count job))"
proof -
  have fin: "undisturbed E \<and> status job \<noteq> CANCELLED \<longrightarrow>
               out = Completed
               \<and> (\<exists>job'. jobs db' job_id = Some job' \<and> status job' = COMPLETED
                     \<and> processed_count job' = total_count job'
                     \<and> total_count job' = total_count job)"
    using completed_run [OF assms(1,3,5)] by blast
  have frame: "associations db' = associations db
         \<and> (\<forall>(c, d) \<in> set tr. associations d = associations db)"
  proof (cases "status job = CANCELLED")
    case True
    with assms(1,5) show ?thesis by (simp add: process_batch_job_def)
  next
    case False
    from started_job [OF assms(1), of E] obtain j1 where
      j1: "jobs (started E job_id db) job_id = Some j1" "job_frame job j1"
      by auto
    have jt1: "job_type j1 = ADD" "target_collection_id j1 = target_collection_id job"
      using j1(2) assms(2) by (simp_all add: job_frame_def)
    have pres: "\<forall>cid \<in> set (company_ids_json job).
           \<exists>a \<in> set (associations (started E job_id db)).
             company_id a = cid \<and> collection_id a = target_collection_id j1"
      using assms(4) jt1(2) by simp
    have loop: "\<And>r db2 tr2. run_loop E job_id job db = (r, db2, tr2) \<Longrightarrow>
        associations db2 = associations db
        \<and> (\<forall>(c, d) \<in> set tr2. associations d = associations db)"
      unfolding run_loop_def
      using run_chunks_add_present [OF _ j1(1) jt1(1) pres] by simp
    from assms(5,1) False show ?thesis
    proof (cases rule: process_batch_job_cases)
      case (returned i tr2)
      from loop [OF returned(1)] show ?thesis unfolding returned(3) by simp
    next
      case (missing i tr2)
      from loop [OF missing(1)] show ?thesis unfolding missing(3) by simp
    next
      case (raised i msg db2 tr2)
      from loop [OF raised(1)] show ?thesis unfolding raised(4) raised(3) by simp
    next
      case (finished processed db2 tr2 db3)
      from loop [OF finished(1)] show ?thesis
        unfolding finished(5) finished(4) finished(3) by simp
    qed
  qed
  from frame fin show ?thesis by blast
qed

theorem add_job_over_present_ids_witness:
  "associations (fst (snd (process_batch_job quiet 7 ex_present_db)))
     = associations ex_present_db
   \<and> fst (process_batch_job quiet 7 ex_present_db) = Completed
   \<and> (\<exists>job'. jobs (fst (snd (process_batch_job quiet 7 ex_present_db))) 7 = Some job'
          \<and> status job' = COMPLETED \<and> processed_count job' = total_count job'
          \<and> total_count job' = total_count (ex_job PENDING))"
proof -
  have a: "jobs ex_present_db 7 = Some (ex_job PENDING)"
    by (simp add: ex_present_db_def ex_db_job)
  have b: "job_type (ex_job PENDING) = ADD"
    by (simp add: ex_job_fields)
  have c: "total_count (ex_job PENDING) = int (length (company_ids_json (ex_job PENDING)))"
    by (simp add: ex_job_fields)
  have d: "\<forall>cid \<in> set (company_ids_json (ex_job PENDING)).
             \<exists>a \<in> set (associations ex_present_db).
               company_id a = cid \<and> collection_id a = target_collection_id (ex_job PENDING)"
    by (simp add: ex_job_fields ex_present_db_def)
  have e: "process_batch_job quiet 7 ex_present_db
      = (fst (process_batch_job quiet 7 ex_present_db),
         fst (snd (process_batch_job quiet 7 ex_present_db)),
         snd (snd (process_batch_job quiet 7 ex_present_db)))"
    by simp
  have f: "undisturbed quiet \<and> status (ex_job PENDING) \<noteq> CANCELLED"
    by (simp add: ex_job_fields)
  from add_job_over_present_ids [OF a b c d e] f show ?thesis
    by blast
qed

end
